theory Spec2Isabelle
  imports Complex_Main "HOL-Library.Monad_Syntax" "HOL-Library.Multiset"
begin

section \<open>Numbers and configuration\<close>

text \<open>
  The engine of \<^verbatim>\<open>physics.js\<close> computes with JavaScript numbers. They are modelled
  here as real numbers: rounding is not modelled. A JavaScript operation whose result
  is not a real number (a division by zero gives \<^verbatim>\<open>NaN\<close> or an infinity) is
  modelled as \<open>None\<close>, and the model does not follow a run past that point: every
  function that can reach such a division returns an \<open>option\<close>.
\<close>

definition jsdiv :: "real \<Rightarrow> real \<Rightarrow> real option" where
  "jsdiv a b = (if b = 0 then None else Some (a / b))"

text \<open>\<^verbatim>\<open>Math.log\<close> is \<^verbatim>\<open>NaN\<close> below zero and minus infinity at zero.\<close>

definition jslog :: "real \<Rightarrow> real option" where
  "jslog a = (if a \<le> 0 then None else Some (ln a))"

text \<open>
  \<^verbatim>\<open>Math.pow\<close> with a positive base; the engine raises no other base to a power
  that is not \<open>2\<close> or \<open>0.5\<close>.
\<close>

definition jspow :: "real \<Rightarrow> real \<Rightarrow> real option" where
  "jspow a e = (if a \<le> 0 then None else Some (a powr e))"

text \<open>\<^verbatim>\<open>Math.atan2(y, x)\<close> on real arguments (signed zeros are not modelled).\<close>

definition atan2 :: "real \<Rightarrow> real \<Rightarrow> real" where
  "atan2 y x =
     (if 0 < x then arctan (y / x)
      else if x < 0 then (if 0 \<le> y then arctan (y / x) + pi else arctan (y / x) - pi)
      else if 0 < y then pi / 2
      else if y < 0 then - (pi / 2)
      else 0)"

text \<open>The \<^verbatim>\<open>config\<close> object: it is private to the module and never written.\<close>

definition stepCollisions :: bool where
  "stepCollisions = False"

definition maxSpeed :: real where
  "maxSpeed = 40"

definition stopSpeed :: real where
  "stopSpeed = 1 / 100"

definition curveAmplifier :: real where
  "curveAmplifier = 1"

section \<open>Items\<close>

text \<open>
  \<^verbatim>\<open>shotCurve\<close> is either \<^verbatim>\<open>false\<close> or a number. The per-item \<^verbatim>\<open>cache\<close> object
  holds up to three memoised values; \<^verbatim>\<open>setPos\<close> deletes all of them. The field
  \<^verbatim>\<open>power\<close> is written \<open>power'\<close>, since \<open>power\<close> is a constant of HOL. The fields
  \<^verbatim>\<open>bs\<close>, \<^verbatim>\<open>bearing\<close>, \<^verbatim>\<open>rotation\<close> and \<^verbatim>\<open>ghost\<close> are never read by the engine
  and are left out.
\<close>

datatype curve = NoCurve | Curve real

record item_cache =
  stepDistance :: "real option"
  nextPos :: "(real \<times> real) option"
  nextCurvePos :: "(real \<times> real) option"

record item =
  pos_x :: real
  pos_y :: real
  radius :: real
  power' :: real
  friction :: real
  speed :: real
  course :: real
  unused :: real
  disabled :: bool
  shotCourse :: real
  shotCurve :: curve
  shotOriginX :: real
  shotOriginY :: real
  shotDistance :: real
  shotTraveled :: real
  cache :: item_cache

definition emptyCache :: item_cache where
  "emptyCache = \<lparr>stepDistance = None, nextPos = None, nextCurvePos = None\<rparr>"

text \<open>\<^verbatim>\<open>new Item(bs, x, y, radius, power)\<close> with the defaults of the prototype.\<close>

definition newItem :: "real \<Rightarrow> real \<Rightarrow> real \<Rightarrow> real \<Rightarrow> item" where
  "newItem x y r p =
     \<lparr>pos_x = x, pos_y = y, radius = r, power' = p, friction = 9 / 10, speed = 0,
      course = 0, unused = - 1, disabled = False, shotCourse = 0, shotCurve = NoCurve,
      shotOriginX = 0, shotOriginY = 0, shotDistance = 0, shotTraveled = 0,
      cache = emptyCache\<rparr>"

definition setPos :: "item \<Rightarrow> real \<Rightarrow> real \<Rightarrow> item" where
  "setPos it x y = it\<lparr>pos_x := x, pos_y := y, cache := emptyCache\<rparr>"

text \<open>The number a \<^verbatim>\<open>shotCurve\<close> stands for in arithmetic (\<^verbatim>\<open>false\<close> is \<open>0\<close>).\<close>

definition curveNumber :: "curve \<Rightarrow> real" where
  "curveNumber c = (case c of NoCurve \<Rightarrow> 0 | Curve k \<Rightarrow> k)"

section \<open>Utility mathematics\<close>

definition abcSquare :: "real \<Rightarrow> real \<Rightarrow> real" where
  "abcSquare a b = \<bar>sqrt (a\<^sup>2 + b\<^sup>2)\<bar>"

definition distanceBetween :: "item \<Rightarrow> item \<Rightarrow> real" where
  "distanceBetween a b =
     abcSquare ((pos_x a + radius a) - (pos_x b + radius b))
               ((pos_y a + radius a) - (pos_y b + radius b))"

definition getCourse :: "real \<Rightarrow> real \<Rightarrow> real \<Rightarrow> real \<Rightarrow> real" where
  "getCourse x1 y1 x2 y2 = atan2 (y2 - y1) (x2 - x1)"

definition angleBetween :: "real \<Rightarrow> real \<Rightarrow> real" where
  "angleBetween A B = cos ((A - B) + pi / 2)"

definition distanceToTravel :: "real \<Rightarrow> real \<Rightarrow> real option" where
  "distanceToTravel spd fr =
     (if spd = 0 then Some 0
      else do {
        q \<leftarrow> jsdiv stopSpeed spd;
        lq \<leftarrow> jslog q;
        lf \<leftarrow> jslog fr;
        x \<leftarrow> jsdiv lq lf;
        p \<leftarrow> jspow fr (x + 1);
        jsdiv (spd * (1 - p)) (1 - fr)
      })"

section \<open>Trajectory of one item\<close>

definition getShotProgressToPi :: "item \<Rightarrow> real option" where
  "getShotProgressToPi it = do {
     q \<leftarrow> jsdiv (shotTraveled it + speed it) (shotDistance it);
     Some (q * pi)
   }"

text \<open>The lateral offset \<^verbatim>\<open>realY\<close> of \<^verbatim>\<open>getNextCurvePos\<close> at progress \<open>x\<close>.\<close>

definition curveY :: "item \<Rightarrow> real \<Rightarrow> real" where
  "curveY it x = sin x * curveNumber (shotCurve it) * curveAmplifier"

definition realY :: "item \<Rightarrow> real \<Rightarrow> real" where
  "realY it x = (curveY it x / pi) * shotDistance it"

text \<open>The body of \<^verbatim>\<open>getNextCurvePos\<close> below the cache test.\<close>

definition computeNextCurvePos :: "item \<Rightarrow> (real \<times> real) option" where
  "computeNextCurvePos it = do {
     x \<leftarrow> getShotProgressToPi it;
     q \<leftarrow> jsdiv (curveY it x) x;
     let alpha = arctan q;
     let curveStepDistance = abcSquare (shotTraveled it + speed it) (realY it x);
     Some (shotOriginX it + cos (shotCourse it - alpha) * curveStepDistance,
           shotOriginY it + sin (shotCourse it - alpha) * curveStepDistance)
   }"

definition getNextCurvePos :: "item \<Rightarrow> ((real \<times> real) \<times> item) option" where
  "getNextCurvePos it =
     (case nextCurvePos (cache it) of
        Some p \<Rightarrow> Some (p, it)
      | None \<Rightarrow> do {
          p \<leftarrow> computeNextCurvePos it;
          Some (p, it\<lparr>cache := (cache it)\<lparr>nextCurvePos := Some p\<rparr>\<rparr>)
        })"

definition getNextPos :: "item \<Rightarrow> ((real \<times> real) \<times> item) option" where
  "getNextPos it =
     (case nextPos (cache it) of
        Some p \<Rightarrow> Some (p, it)
      | None \<Rightarrow>
          if shotCurve it = NoCurve then
            (let p = (pos_x it + cos (course it) * speed it,
                      pos_y it + sin (course it) * speed it)
             in Some (p, it\<lparr>cache := (cache it)\<lparr>nextPos := Some p\<rparr>\<rparr>))
          else do {
            (p, it1) \<leftarrow> getNextCurvePos it;
            Some (p, it1\<lparr>cache := (cache it1)\<lparr>nextPos := Some p\<rparr>\<rparr>)
          })"

text \<open>
  \<^verbatim>\<open>if (item.cache.stepDistance) return item.cache.stepDistance\<close>: a cached \<open>0\<close> is
  falsy and is computed again.
\<close>

definition truthy :: "real option \<Rightarrow> real option" where
  "truthy v = (case v of Some s \<Rightarrow> if s \<noteq> 0 then Some s else None | None \<Rightarrow> None)"

definition getStepDistance :: "item \<Rightarrow> (real \<times> item) option" where
  "getStepDistance it =
     (case truthy (stepDistance (cache it)) of
        Some s \<Rightarrow> Some (s, it)
      | None \<Rightarrow>
          if shotCurve it \<noteq> NoCurve then do {
            (newpos, it1) \<leftarrow> getNextCurvePos it;
            let sd = abcSquare (fst newpos - pos_x it1) (snd newpos - pos_y it1) * unused it1;
            Some (sd, it1\<lparr>cache := (cache it1)\<lparr>stepDistance := Some sd\<rparr>\<rparr>)
          }
          else
            (let sd = speed it * unused it
             in Some (sd, it\<lparr>cache := (cache it)\<lparr>stepDistance := Some sd\<rparr>\<rparr>)))"

definition getCourseToNextPositionOnCurve :: "item \<Rightarrow> (real \<times> item) option" where
  "getCourseToNextPositionOnCurve it = do {
     (p, it1) \<leftarrow> getNextPos it;
     Some (getCourse (pos_x it1 + radius it1) (pos_y it1 + radius it1)
                     (fst p + radius it1) (snd p + radius it1), it1)
   }"

section \<open>The circle sweep: \<^verbatim>\<open>getDistanceToIntersection\<close>\<close>

text \<open>
  The quantities of \<^verbatim>\<open>getDistanceToIntersection(A, B)\<close>, named as in the source:
  \<open>dx, dy\<close> is the movement of \<open>A\<close> relative to \<open>B\<close> over this step, \<open>fx, fy\<close>
  the vector from the centre of \<open>B\<close> to the centre of \<open>A\<close>, and \<open>a, b, c\<close> the
  coefficients of the quadratic in the travel parameter \<open>t\<close>.
\<close>

definition sweep_dx :: "item \<Rightarrow> item \<Rightarrow> real \<Rightarrow> real \<Rightarrow> real" where
  "sweep_dx A B stepDistanceA stepDistanceB =
     (let acx = pos_x A + radius A;
          bcx = pos_x B + radius B;
          aacx = acx + cos (course A) * stepDistanceA;
          bbcx = bcx + cos (course B) * stepDistanceB
      in (aacx - acx) - (bbcx - bcx))"

definition sweep_dy :: "item \<Rightarrow> item \<Rightarrow> real \<Rightarrow> real \<Rightarrow> real" where
  "sweep_dy A B stepDistanceA stepDistanceB =
     (let acy = pos_y A + radius A;
          bcy = pos_y B + radius B;
          aacy = acy + sin (course A) * stepDistanceA;
          bbcy = bcy + sin (course B) * stepDistanceB
      in (aacy - acy) - (bbcy - bcy))"

definition sweep_fx :: "item \<Rightarrow> item \<Rightarrow> real" where
  "sweep_fx A B = (pos_x A + radius A) - (pos_x B + radius B)"

definition sweep_fy :: "item \<Rightarrow> item \<Rightarrow> real" where
  "sweep_fy A B = (pos_y A + radius A) - (pos_y B + radius B)"

definition sweep_a :: "item \<Rightarrow> item \<Rightarrow> real \<Rightarrow> real \<Rightarrow> real" where
  "sweep_a A B sA sB =
     sweep_dx A B sA sB * sweep_dx A B sA sB + sweep_dy A B sA sB * sweep_dy A B sA sB"

definition sweep_b :: "item \<Rightarrow> item \<Rightarrow> real \<Rightarrow> real \<Rightarrow> real" where
  "sweep_b A B sA sB =
     2 * (sweep_fx A B * sweep_dx A B sA sB + sweep_fy A B * sweep_dy A B sA sB)"

definition sweep_c :: "item \<Rightarrow> item \<Rightarrow> real" where
  "sweep_c A B =
     (sweep_fx A B * sweep_fx A B + sweep_fy A B * sweep_fy A B)
       - ((radius A + radius B) * (radius A + radius B))"

definition discriminant :: "item \<Rightarrow> item \<Rightarrow> real \<Rightarrow> real \<Rightarrow> real" where
  "discriminant A B sA sB =
     (sweep_b A B sA sB * sweep_b A B sA sB) - (4 * sweep_a A B sA sB * sweep_c A B)"

text \<open>
  The part of \<^verbatim>\<open>getDistanceToIntersection\<close> below the two calls of
  \<^verbatim>\<open>getStepDistance\<close>; \<open>- 1\<close> is the source's "no collision this step".
\<close>

definition sweepDistance :: "item \<Rightarrow> item \<Rightarrow> real \<Rightarrow> real \<Rightarrow> real option" where
  "sweepDistance A B stepDistanceA stepDistanceB =
     (if discriminant A B stepDistanceA stepDistanceB \<le> 0 then Some (- 1)
      else do {
        let root = sqrt (discriminant A B stepDistanceA stepDistanceB);
        t1 \<leftarrow> jsdiv (- sweep_b A B stepDistanceA stepDistanceB + root)
                      (2 * sweep_a A B stepDistanceA stepDistanceB);
        t2 \<leftarrow> jsdiv (- sweep_b A B stepDistanceA stepDistanceB - root)
                      (2 * sweep_a A B stepDistanceA stepDistanceB);
        if (t1 < 0 \<or> t1 > 1) \<and> (t2 < 0 \<or> t2 > 1) then Some (- 1)
        else
          (let t = (if t1 < t2 \<and> t1 \<ge> 0 then t1 else t2)
           in Some (t * stepDistanceA))
      })"

text \<open>
  The world is the array \<^verbatim>\<open>this.items\<close>; an item is named by its index, which stands
  for the identity of the JavaScript object. Reading the step distances fills the
  caches of both items, so the function returns the items as well.
\<close>

definition getDistanceToIntersection ::
    "item list \<Rightarrow> nat \<Rightarrow> nat \<Rightarrow> (real \<times> item list) option" where
  "getDistanceToIntersection w A B = do {
     (stepDistanceA, a1) \<leftarrow> getStepDistance (w ! A);
     let w1 = w[A := a1];
     (stepDistanceB, b1) \<leftarrow> getStepDistance (w1 ! B);
     let w2 = w1[B := b1];
     d \<leftarrow> sweepDistance (w2 ! A) (w2 ! B) stepDistanceA stepDistanceB;
     Some (d, w2)
   }"

section \<open>Collision resolution\<close>

text \<open>
  \<^verbatim>\<open>getClosestItemAfterMove\<close>: the first item in registration order, other than
  \<open>A\<close> and \<open>B\<close>, whose centre is closer than \<^verbatim>\<open>A.radius + B.radius\<close> to the centre
  of \<open>A\<close> moved forward; \<open>B\<close> when there is none.
\<close>

definition getClosestItemAfterMove :: "item list \<Rightarrow> nat \<Rightarrow> nat \<Rightarrow> real \<Rightarrow> nat" where
  "getClosestItemAfterMove w A B distance =
     (let warpAx = pos_x (w ! A) + radius (w ! A) + (cos (course (w ! A)) * distance);
          warpAy = pos_y (w ! A) + radius (w ! A) + (sin (course (w ! A)) * distance);
          distanceToB = radius (w ! A) + radius (w ! B)
      in case find (\<lambda>i. i \<noteq> A \<and> i \<noteq> B \<and>
                      abcSquare (warpAx - (pos_x (w ! i) + radius (w ! i)))
                                (warpAy - (pos_y (w ! i) + radius (w ! i))) < distanceToB)
                   [0..<length w] of
           Some i \<Rightarrow> i
         | None \<Rightarrow> B)"

text \<open>
  \<^verbatim>\<open>updateForCollision\<close> in the order of the source. Lines 253 to 278: both curves
  are switched off, \<open>A\<close> and \<open>B\<close> are moved, and \<open>A\<close> is put back at 95 per cent of
  its distance when the two overlap after the move.
\<close>

definition moveToContact :: "item list \<Rightarrow> nat \<Rightarrow> nat \<Rightarrow> real \<Rightarrow> real \<Rightarrow> item list" where
  "moveToContact w A B distanceToCollisionA distanceToCollisionB =
     (let w1 = w[A := (w ! A)\<lparr>shotCurve := NoCurve\<rparr>];
          w2 = w1[B := (w1 ! B)\<lparr>shotCurve := NoCurve\<rparr>];
          x = pos_x (w2 ! A);
          y = pos_y (w2 ! A);
          w3 = w2[A := setPos (w2 ! A)
                  (pos_x (w2 ! A) + cos (course (w2 ! A)) * distanceToCollisionA)
                  (pos_y (w2 ! A) + sin (course (w2 ! A)) * distanceToCollisionA)];
          w4 = w3[B := setPos (w3 ! B)
                  (pos_x (w3 ! B) + cos (course (w3 ! B)) * distanceToCollisionB)
                  (pos_y (w3 ! B) + sin (course (w3 ! B)) * distanceToCollisionB)]
      in if distanceBetween (w4 ! A) (w4 ! B) < radius (w4 ! A) + radius (w4 ! B)
         then w4[A := setPos (w4 ! A)
                  (x + cos (course (w4 ! A)) * distanceToCollisionA * (95 / 100))
                  (y + sin (course (w4 ! A)) * distanceToCollisionA * (95 / 100))]
         else w4)"

text \<open>Lines 280 to 282: the share of the step that is left to each item.\<close>

definition consumeUnused ::
    "item list \<Rightarrow> nat \<Rightarrow> nat \<Rightarrow> real \<Rightarrow> real \<Rightarrow> real \<Rightarrow> real \<Rightarrow> item list option" where
  "consumeUnused w A B distanceToCollisionA stepDistanceA distanceToCollisionB stepDistanceB = do {
     qa \<leftarrow> jsdiv distanceToCollisionA stepDistanceA;
     let w1 = w[A := (w ! A)\<lparr>unused := unused (w ! A) * qa\<rparr>];
     if stepDistanceB \<noteq> 0 then do {
       qb \<leftarrow> jsdiv distanceToCollisionB stepDistanceB;
       Some (w1[B := (w1 ! B)\<lparr>unused := unused (w1 ! B) * qb\<rparr>])
     }
     else Some w1
   }"

text \<open>
  Lines 285 to 307. \<^verbatim>\<open>abCourse\<close> is taken between the positions \<^verbatim>\<open>pos\<close> of the two
  items as they are after the move; \<^verbatim>\<open>relAngle\<close> uses the course \<open>A\<close> came with.
\<close>

definition abCourse :: "item list \<Rightarrow> nat \<Rightarrow> nat \<Rightarrow> real" where
  "abCourse w A B = getCourse (pos_x (w ! A)) (pos_y (w ! A)) (pos_x (w ! B)) (pos_y (w ! B))"

definition relAngle :: "item list \<Rightarrow> nat \<Rightarrow> nat \<Rightarrow> real" where
  "relAngle w A B = angleBetween (course (w ! A)) (abCourse w A B)"

definition deflect :: "item list \<Rightarrow> nat \<Rightarrow> nat \<Rightarrow> item list option" where
  "deflect w A B =
     (let ab = abCourse w A B;
          tangentCourse = ab - (pi / 2);
          rel = relAngle w A B;
          w1 = w[A := (w ! A)\<lparr>course := (if rel > 0 then tangentCourse else tangentCourse - pi)\<rparr>];
          w2 = w1[B := (w1 ! B)\<lparr>course := ab\<rparr>]
      in do {
        F \<leftarrow> jsdiv (speed (w2 ! A) * power' (w2 ! A)) (power' (w2 ! B));
        let w3 = w2[A := (w2 ! A)\<lparr>speed := speed (w2 ! A) * \<bar>rel\<bar>\<rparr>];
        Some (w3[B := (w3 ! B)\<lparr>speed := F * (1 - \<bar>rel\<bar>)\<rparr>])
      })"

definition updateForCollision :: "item list \<Rightarrow> nat \<Rightarrow> nat \<Rightarrow> real \<Rightarrow> item list option" where
  "updateForCollision w A B distanceToCollisionA = do {
     (stepDistanceA, a1) \<leftarrow> getStepDistance (w ! A);
     let w1 = w[A := a1];
     (stepDistanceB, b1) \<leftarrow> getStepDistance (w1 ! B);
     let w2 = w1[B := b1];
     (distanceToCollisionB, w3) \<leftarrow> getDistanceToIntersection w2 B A;
     let w4 = moveToContact w3 A B distanceToCollisionA distanceToCollisionB;
     w5 \<leftarrow> consumeUnused w4 A B distanceToCollisionA stepDistanceA
             distanceToCollisionB stepDistanceB;
     deflect w5 A B
   }"

text \<open>
  \<^verbatim>\<open>updateIfColliding\<close>. The second component of the result counts the nested calls
  made, this one included; the source does not return it. A missing or zero
  \<^verbatim>\<open>_attempt\<close> is \<open>1\<close>.
\<close>

function updateIfColliding ::
    "item list \<Rightarrow> nat \<Rightarrow> nat \<Rightarrow> nat \<Rightarrow> (bool \<times> nat \<times> item list) option" where
  "updateIfColliding w item1 item2 attempt0 =
     (let attempt = (if attempt0 = 0 then 1 else attempt0);
          A = (if speed (w ! item1) \<ge> speed (w ! item2) then item1 else item2);
          B = (if A = item1 then item2 else item1)
      in do {
        (distanceToCollision, w1) \<leftarrow> getDistanceToIntersection w A B;
        if distanceToCollision > 0 then
          (let item = getClosestItemAfterMove w1 A B distanceToCollision
           in if item \<noteq> B \<and> attempt < 20 then do {
                (hit, calls, w2) \<leftarrow> updateIfColliding w1 A item (attempt + 1);
                Some (True, Suc calls, w2)
              }
              else do {
                w2 \<leftarrow> updateForCollision w1 A B distanceToCollision;
                Some (True, 1, w2)
              })
        else Some (False, 1, w1)
      })"
  by pat_completeness auto
termination
  by (relation "measure (\<lambda>(w, item1, item2, attempt0). 20 - (if attempt0 = 0 then 1 else attempt0))")
     auto

section \<open>One collision pass\<close>

text \<open>
  \<^verbatim>\<open>orderByDistance\<close> sorts with a comparator on the distance to \<open>source\<close> that
  answers \<open>0\<close> on equal distances; the sort is taken to be stable, as
  \<^verbatim>\<open>Array.prototype.sort\<close> is since ECMAScript 2019.
\<close>

definition orderByDistance :: "item list \<Rightarrow> nat list \<Rightarrow> nat \<Rightarrow> nat list" where
  "orderByDistance w arr source = sort_key (\<lambda>i. distanceBetween (w ! source) (w ! i)) arr"

text \<open>The \<^verbatim>\<open>for\<close> loop of \<^verbatim>\<open>collisionStep\<close> over \<^verbatim>\<open>ordered[1]\<close>, \<^verbatim>\<open>ordered[2]\<close>, ...\<close>

fun testOrdered :: "item list \<Rightarrow> nat \<Rightarrow> nat list \<Rightarrow> (bool \<times> item list) option" where
  "testOrdered w source [] = Some (False, w)"
| "testOrdered w source (other # rest) = do {
     (hit, calls, w1) \<leftarrow> updateIfColliding w source other 0;
     if hit then Some (True, w1) else testOrdered w1 source rest
   }"

text \<open>The callback of \<^verbatim>\<open>this.items.some\<close>, over the indices still to visit.\<close>

fun sweepItems :: "item list \<Rightarrow> nat list \<Rightarrow> (bool \<times> item list) option" where
  "sweepItems w [] = Some (False, w)"
| "sweepItems w (i # rest) =
     (if speed (w ! i) \<noteq> 0 \<and> unused (w ! i) \<noteq> 0 then do {
        let ordered = orderByDistance w [0..<length w] i;
        (hit, w1) \<leftarrow> testOrdered w i (tl ordered);
        if hit then Some (True, w1) else sweepItems w1 rest
      }
      else sweepItems w rest)"

definition collisionStep :: "item list \<Rightarrow> (bool \<times> item list) option" where
  "collisionStep w = sweepItems w [0..<length w]"

section \<open>The tick\<close>

definition resetItems :: "item list \<Rightarrow> item list" where
  "resetItems w = map (\<lambda>it. it\<lparr>unused := 1\<rparr>) w"

text \<open>The body of the \<^verbatim>\<open>forEach\<close> of \<^verbatim>\<open>applyPhysics\<close> for one item.\<close>

definition applyPhysicsItem :: "item \<Rightarrow> item option" where
  "applyPhysicsItem it =
     (if speed it \<noteq> 0 \<and> unused it \<noteq> 0 then do {
        it1 \<leftarrow> (if shotCurve it \<noteq> NoCurve then do {
                  (obj, it0) \<leftarrow> getNextCurvePos it;
                  Some (setPos it0 (fst obj) (snd obj))
                }
                else Some (setPos it
                  (pos_x it + cos (course it) * speed it * unused it)
                  (pos_y it + sin (course it) * speed it * unused it)));
        let it2 = it1\<lparr>shotTraveled := shotTraveled it1 + speed it1\<rparr>;
        it3 \<leftarrow> (if shotCurve it2 \<noteq> NoCurve then do {
                  (c, it0) \<leftarrow> getCourseToNextPositionOnCurve it2;
                  Some (it0\<lparr>course := c\<rparr>)
                }
                else Some it2);
        let it4 = it3\<lparr>speed := speed it3 * friction it3\<rparr>;
        let it5 = (if speed it4 < stopSpeed then it4\<lparr>speed := 0\<rparr> else it4);
        Some (it5\<lparr>unused := 0\<rparr>)
      }
      else Some it)"

fun applyPhysicsItems :: "item list \<Rightarrow> (bool \<times> item list) option" where
  "applyPhysicsItems [] = Some (False, [])"
| "applyPhysicsItems (it # rest) = do {
     it1 \<leftarrow> applyPhysicsItem it;
     (movingStones, rest1) \<leftarrow> applyPhysicsItems rest;
     Some (speed it1 \<noteq> 0 \<or> movingStones, it1 # rest1)
   }"

definition applyPhysics :: "item list \<Rightarrow> (bool \<times> item list) option" where
  "applyPhysics w = applyPhysicsItems w"

record world =
  items :: "item list"
  lastFinished :: bool

text \<open>
  The \<^verbatim>\<open>do ... while\<close> loop of \<^verbatim>\<open>tick\<close>. The result says whether the loop left
  through the \<^verbatim>\<open>return true\<close> of the step mode, how many passes were made (a count
  the source does not keep), and the items.
\<close>

function collisionLoop :: "item list \<Rightarrow> nat \<Rightarrow> (bool \<times> nat \<times> item list) option" where
  "collisionLoop w loopBreaker = do {
     (thisTime, w1) \<leftarrow> collisionStep w;
     if stepCollisions \<and> thisTime then Some (True, 1, w1)
     else if thisTime \<and> Suc loopBreaker < 10 then do {
       (stepped, passes, w2) \<leftarrow> collisionLoop w1 (Suc loopBreaker);
       Some (stepped, Suc passes, w2)
     }
     else Some (False, 1, w1)
   }"
  by pat_completeness auto
termination
  by (relation "measure (\<lambda>(w, loopBreaker). 10 - loopBreaker)") auto

definition tick :: "world \<Rightarrow> (bool \<times> world) option" where
  "tick W = do {
     let w0 = (if \<not> stepCollisions \<or> lastFinished W then resetItems (items W) else items W);
     (stepped, passes, w1) \<leftarrow> collisionLoop w0 0;
     if stepped then Some (True, W\<lparr>items := w1, lastFinished := False\<rparr>)
     else do {
       (moving, w2) \<leftarrow> applyPhysics w1;
       Some (moving, W\<lparr>items := w2, lastFinished := True\<rparr>)
     }
   }"

section \<open>Launching a shot\<close>

text \<open>
  \<^verbatim>\<open>push(item, course, speed, curve)\<close>, with \<^verbatim>\<open>config.record_shots\<close> and the drawing
  switched off as they are. That the item is registered is only checked for a warning.
\<close>

definition push :: "item \<Rightarrow> real \<Rightarrow> real \<Rightarrow> curve \<Rightarrow> item option" where
  "push it course0 speed0 curve0 =
     (if speed0 = 0 then Some it
      else do {
        let spd = min speed0 maxSpeed;
        distance \<leftarrow> distanceToTravel spd (friction it);
        let it1 = it\<lparr>speed := spd,
                       shotCourse := course0 + (curveNumber curve0 * (pi / 2)),
                       shotCurve := curve0,
                       shotOriginX := pos_x it,
                       shotOriginY := pos_y it,
                       shotTraveled := 0,
                       shotDistance := distance\<rparr>;
        (c, it2) \<leftarrow> getCourseToNextPositionOnCurve it1;
        Some (it2\<lparr>course := c\<rparr>)
      })"

section \<open>The overlap diagnostic\<close>

text \<open>
  \<^verbatim>\<open>collisionCheck\<close> looks for the first pair \<open>A\<close>, \<open>B\<close> of items, \<open>A\<close> registered before
  \<open>B\<close> and not disabled, for which the distance between the positions \<^verbatim>\<open>pos\<close> is less
  than the sum of the radii, and turns the courses of the two as a collision does.
  \<^verbatim>\<open>tick\<close> does not call it.
\<close>

definition phased :: "item list \<Rightarrow> nat \<Rightarrow> nat \<Rightarrow> bool" where
  "phased w A B \<longleftrightarrow>
     abcSquare (pos_x (w ! A) - pos_x (w ! B)) (pos_y (w ! A) - pos_y (w ! B))
       < radius (w ! A) + radius (w ! B)"

definition nudge :: "item list \<Rightarrow> nat \<Rightarrow> nat \<Rightarrow> item list" where
  "nudge w A B =
     (let ab = abCourse w A B;
          tangentCourse = ab - (pi / 2);
          rel = relAngle w A B;
          w1 = w[A := (w ! A)\<lparr>course := (if rel > 0 then tangentCourse else tangentCourse - pi)\<rparr>]
      in w1[B := (w1 ! B)\<lparr>course := ab\<rparr>])"

fun checkItems :: "item list \<Rightarrow> nat list \<Rightarrow> item list" where
  "checkItems w [] = w"
| "checkItems w (i # rest) =
     (if \<not> disabled (w ! i) then
        (case find (phased w i) [Suc i..<length w] of
           Some j \<Rightarrow> nudge w i j
         | None \<Rightarrow> checkItems w rest)
      else checkItems w rest)"

definition collisionCheck :: "item list \<Rightarrow> item list" where
  "collisionCheck w = checkItems w [0..<length w]"

section \<open>Auxiliary definitions for the properties\<close>

text \<open>
  The two roots \<^verbatim>\<open>t1\<close> and \<^verbatim>\<open>t2\<close> of \<^verbatim>\<open>getDistanceToIntersection\<close>, for the
  statements below (the quotient is only used where \<open>sweep_a\<close> is positive).
\<close>

definition root1 :: "item \<Rightarrow> item \<Rightarrow> real \<Rightarrow> real \<Rightarrow> real" where
  "root1 A B sA sB =
     (- sweep_b A B sA sB + sqrt (discriminant A B sA sB)) / (2 * sweep_a A B sA sB)"

definition root2 :: "item \<Rightarrow> item \<Rightarrow> real \<Rightarrow> real \<Rightarrow> real" where
  "root2 A B sA sB =
     (- sweep_b A B sA sB - sqrt (discriminant A B sA sB)) / (2 * sweep_a A B sA sB)"

text \<open>Two small stones, one fast and one at rest, and their states with filled caches.\<close>

definition fastStone :: item where
  "fastStone = (newItem 0 0 5 1)\<lparr>speed := 40, unused := 1\<rparr>"

definition smallStone :: item where
  "smallStone = (newItem 15 0 5 1)\<lparr>unused := 1\<rparr>"

definition fastStone' :: item where
  "fastStone' = fastStone\<lparr>cache := emptyCache\<lparr>stepDistance := Some 40\<rparr>\<rparr>"

definition smallStone' :: item where
  "smallStone' = smallStone\<lparr>cache := emptyCache\<lparr>stepDistance := Some 0\<rparr>\<rparr>"

text \<open>
  What the data model asks of an item: a speed and a friction that are not negative, a
  positive power, and a cached step distance, when there is one, that is not negative.
  \<open>unused_ok\<close> is the range of \<^verbatim>\<open>unused\<close>.
\<close>

definition wf_item :: "item \<Rightarrow> bool" where
  "wf_item it \<longleftrightarrow>
     0 \<le> speed it \<and> 0 < power' it \<and> 0 \<le> friction it \<and>
     (case stepDistance (cache it) of None \<Rightarrow> True | Some s \<Rightarrow> 0 \<le> s)"

definition unused_ok :: "item \<Rightarrow> bool" where
  "unused_ok it \<longleftrightarrow> 0 \<le> unused it \<and> unused it \<le> 1"

definition inv_item :: "item \<Rightarrow> bool" where
  "inv_item it \<longleftrightarrow> wf_item it \<and> unused_ok it"

declare updateIfColliding.simps [simp del]
declare collisionLoop.simps [simp del]

text \<open>
  The states of the items in the course of one \<^verbatim>\<open>tick\<close> of the world \<open>W\<close>: the state
  after the reset, and the state after each collision pass (a pass resolves at most one
  collision).
\<close>

inductive tick_state :: "world \<Rightarrow> item list \<Rightarrow> bool" for W :: world where
  start: "tick_state W (if \<not> stepCollisions \<or> lastFinished W then resetItems (items W) else items W)"
| pass: "tick_state W w \<Longrightarrow> collisionStep w = Some (hit, w') \<Longrightarrow> tick_state W w'"

text \<open>
  The two small stones after their collision, with caches filled by the next pass, and
  after the physics of the tick; \<open>twoStones\<close> is the world they start in.
\<close>

definition fastHit :: item where
  "fastHit = fastStone\<lparr>pos_x := 5, course := - (pi / 2) - pi, speed := 0, unused := 1 / 8\<rparr>"

definition smallHit :: item where
  "smallHit = smallStone\<lparr>speed := 40\<rparr>"

definition fastHit' :: item where
  "fastHit' = fastHit\<lparr>cache := emptyCache\<lparr>stepDistance := Some 0\<rparr>\<rparr>"

definition smallHit' :: item where
  "smallHit' = smallHit\<lparr>cache := emptyCache\<lparr>stepDistance := Some 40\<rparr>\<rparr>"

definition smallMoved :: item where
  "smallMoved = smallHit\<lparr>pos_x := 55, shotTraveled := 40, speed := 36, unused := 0\<rparr>"

definition twoStones :: world where
  "twoStones = \<lparr>items = [fastStone, smallStone], lastFinished = True\<rparr>"

text \<open>A world of two new stones at rest.\<close>

definition restWorld :: world where
  "restWorld = \<lparr>items = [newItem 0 0 5 1, newItem 15 0 5 1], lastFinished = True\<rparr>"

text \<open>
  A moving stone, registered second, and three stones at the distances 15, 5 and 10
  from it, registered in that order.
\<close>

definition fourStones :: "item list" where
  "fourStones = [newItem 15 0 1 1, (newItem 0 0 1 1)\<lparr>speed := 3, unused := 1\<rparr>,
                 newItem 5 0 1 1, newItem 10 0 1 1]"

text \<open>A shot without curve, 20 of its 100 travelled, at speed 10.\<close>

definition straightShot :: item where
  "straightShot = (newItem 0 0 5 1)\<lparr>speed := 10, unused := 1, shotCurve := Curve 0,
     shotDistance := 100, shotTraveled := 20\<rparr>"

text \<open>The bearing of the line from the centre of \<open>A\<close> to the centre of \<open>B\<close>.\<close>

definition centreCourse :: "item list \<Rightarrow> nat \<Rightarrow> nat \<Rightarrow> real" where
  "centreCourse w A B =
     getCourse (pos_x (w ! A) + radius (w ! A)) (pos_y (w ! A) + radius (w ! A))
               (pos_x (w ! B) + radius (w ! B)) (pos_y (w ! B) + radius (w ! B))"

text \<open>
  A stone of radius 2 moving towards a stone of radius 5 along the line of their
  centres, 5 away from contact; the same two with filled caches, and after their
  collision.
\<close>

definition lightStone :: item where
  "lightStone = (newItem 0 0 2 1)\<lparr>speed := 10, unused := 1\<rparr>"

definition heavyStone :: item where
  "heavyStone = (newItem 9 (- 3) 5 1)\<lparr>unused := 1\<rparr>"

definition lightStone' :: item where
  "lightStone' = lightStone\<lparr>cache := emptyCache\<lparr>stepDistance := Some 10\<rparr>\<rparr>"

definition heavyStone' :: item where
  "heavyStone' = heavyStone\<lparr>cache := emptyCache\<lparr>stepDistance := Some 0\<rparr>\<rparr>"

definition lightHit :: item where
  "lightHit = lightStone\<lparr>pos_x := 5, course := arctan (- (3 / 4)) - pi / 2 - pi, speed := 6,
     unused := 1 / 2\<rparr>"

definition heavyHit :: item where
  "heavyHit = heavyStone\<lparr>course := arctan (- (3 / 4)), speed := 4\<rparr>"

text \<open>
  Two stones of radius 5 that touch, the left one moving towards the right one at
  speed 4; the same with filled caches, and the left one after the physics of the tick.
\<close>

definition slowStone :: item where
  "slowStone = (newItem 0 0 5 1)\<lparr>speed := 4, unused := 1\<rparr>"

definition nearStone :: item where
  "nearStone = (newItem 10 0 5 1)\<lparr>unused := 1\<rparr>"

definition slowStone' :: item where
  "slowStone' = slowStone\<lparr>cache := emptyCache\<lparr>stepDistance := Some 4\<rparr>\<rparr>"

definition nearStone' :: item where
  "nearStone' = nearStone\<lparr>cache := emptyCache\<lparr>stepDistance := Some 0\<rparr>\<rparr>"

definition slowMoved :: item where
  "slowMoved = slowStone\<lparr>pos_x := 4, shotTraveled := 4, speed := 18 / 5, unused := 0\<rparr>"

definition touching :: world where
  "touching = \<lparr>items = [slowStone, nearStone], lastFinished = True\<rparr>"

text \<open>
  The iterative simulation in the words of the specification: "apply
  \<^verbatim>\<open>speed *= friction\<close> until \<^verbatim>\<open>speed < stopSpeed\<close>, summing \<^verbatim>\<open>speed\<close> each step". It
  adds up what \<^verbatim>\<open>applyPhysics\<close> moves a free straight shot over its ticks. The first
  argument bounds the number of steps; \<open>None\<close> says that the bound was too small.
  \<open>closedForm\<close> is the value the formula of \<^verbatim>\<open>distanceToTravel\<close> takes.
\<close>

fun iterativeSimulation :: "nat \<Rightarrow> real \<Rightarrow> real \<Rightarrow> real option" where
  "iterativeSimulation 0 spd fr = None"
| "iterativeSimulation (Suc n) spd fr =
     (if spd < stopSpeed then Some 0
      else map_option (\<lambda>s. spd + s) (iterativeSimulation n (spd * fr) fr))"

definition closedForm :: "real \<Rightarrow> real \<Rightarrow> real" where
  "closedForm spd fr = (spd - fr * stopSpeed) / (1 - fr)"

text \<open>A stone of radius 1 that lies inside a stone of radius 20.\<close>

definition tinyStone :: item where
  "tinyStone = newItem 25 0 1 1"

definition bigStone :: item where
  "bigStone = newItem 0 0 20 1"

text \<open>
  A third stone beside the path of the fast stone, which the fast stone reaches before
  the stone ahead; its state with a filled cache, and the fast stone and the third
  stone after their collision.
\<close>

definition thirdStone :: item where
  "thirdStone = (newItem 7 8 5 1)\<lparr>unused := 1\<rparr>"

definition thirdStone' :: item where
  "thirdStone' = thirdStone\<lparr>cache := emptyCache\<lparr>stepDistance := Some 0\<rparr>\<rparr>"

definition fastGlanced :: item where
  "fastGlanced = fastStone\<lparr>pos_x := 1, course := arctan (4 / 3) - pi / 2, speed := 32,
     unused := 1 / 40\<rparr>"

definition thirdHit :: item where
  "thirdHit = thirdStone\<lparr>course := arctan (4 / 3), speed := 8\<rparr>"

text \<open>
  A new stone after \<^verbatim>\<open>push(item, 0, 4, 0)\<close>; the same in the tick, with its step
  distance cached, and after the tick. \<open>pushedWorld\<close> holds it and a new stone that
  touches it on the side it is pushed to.
\<close>

definition pushedStone :: item where
  "pushedStone = (newItem 0 0 5 1)\<lparr>speed := 4, shotCurve := Curve 0, shotDistance := 3991 / 100,
     cache := \<lparr>stepDistance = None, nextPos = Some (4, 0), nextCurvePos = Some (4, 0)\<rparr>\<rparr>"

definition pushedStone1 :: item where
  "pushedStone1 = pushedStone\<lparr>unused := 1,
     cache := \<lparr>stepDistance = Some 4, nextPos = Some (4, 0), nextCurvePos = Some (4, 0)\<rparr>\<rparr>"

definition pushedMoved :: item where
  "pushedMoved = pushedStone\<lparr>pos_x := 4, shotTraveled := 4, speed := 18 / 5, unused := 0,
     cache := \<lparr>stepDistance = None, nextPos = Some (8, 0), nextCurvePos = Some (8, 0)\<rparr>\<rparr>"

definition restStone1 :: item where
  "restStone1 = (newItem 10 0 5 1)\<lparr>unused := 1, cache := emptyCache\<lparr>stepDistance := Some 0\<rparr>\<rparr>"

definition pushedWorld :: world where
  "pushedWorld = \<lparr>items = [pushedStone, newItem 10 0 5 1], lastFinished = True\<rparr>"

text \<open>
  The curved trajectory divides by the shot distance and by the progress of the shot
  (\<^verbatim>\<open>getShotProgressToPi\<close>, \<^verbatim>\<open>getNextCurvePos\<close>). An item on a curve is in order when these
  are not zero: \<^verbatim>\<open>push\<close> starts a shot with \<open>shotTraveled = 0\<close> and a positive speed, and
  \<^verbatim>\<open>applyPhysics\<close> only adds to \<open>shotTraveled\<close>.
\<close>

definition curve_ok :: "item \<Rightarrow> bool" where
  "curve_ok it \<longleftrightarrow>
     shotCurve it = NoCurve \<or>
     (shotDistance it \<noteq> 0 \<and> 0 \<le> shotTraveled it \<and> 0 < shotTraveled it + speed it)"

text \<open>
  The stone pushed above, pushed again at right angles before any tick, and its state
  after one tick.
\<close>

definition repushedStone :: item where
  "repushedStone = pushedStone\<lparr>shotCourse := pi / 2\<rparr>"

definition repushedMoved :: item where
  "repushedMoved = repushedStone\<lparr>pos_x := 4, shotTraveled := 4, speed := 18 / 5, unused := 0,
     course := getCourse 9 5 5 13,
     cache := \<lparr>stepDistance = None, nextPos = Some (0, 8), nextCurvePos = Some (0, 8)\<rparr>\<rparr>"

definition repushedWorld :: world where
  "repushedWorld = \<lparr>items = [repushedStone], lastFinished = True\<rparr>"

text \<open>
  A moving stone that lies exactly on a stone registered before it, a stone far from
  both, and their states with filled caches.
\<close>

definition coveredStone :: item where
  "coveredStone = (newItem 0 0 5 1)\<lparr>unused := 1\<rparr>"

definition movingStone :: item where
  "movingStone = (newItem 0 0 5 1)\<lparr>speed := 4, unused := 1\<rparr>"

definition farStone :: item where
  "farStone = (newItem 20 0 5 1)\<lparr>unused := 1\<rparr>"

definition coveredStone' :: item where
  "coveredStone' = coveredStone\<lparr>cache := emptyCache\<lparr>stepDistance := Some 0\<rparr>\<rparr>"

definition movingStone' :: item where
  "movingStone' = movingStone\<lparr>cache := emptyCache\<lparr>stepDistance := Some 4\<rparr>\<rparr>"

definition farStone' :: item where
  "farStone' = farStone\<lparr>cache := emptyCache\<lparr>stepDistance := Some 0\<rparr>\<rparr>"

text \<open>
  The items after the tests of \<open>source\<close> against each item of a list, in the order of
  the list, none of which confirms a collision; \<open>None\<close> when one does.
\<close>

fun testsMissing :: "item list \<Rightarrow> nat \<Rightarrow> nat list \<Rightarrow> item list option" where
  "testsMissing w source [] = Some w"
| "testsMissing w source (other # rest) =
     Option.bind (updateIfColliding w source other 0)
       (\<lambda>(hit, calls, w1). if hit then None else testsMissing w1 source rest)"

text \<open>
  The points of the straight line from the origin of the shot along \<^verbatim>\<open>shotCourse\<close>,
  and the items whose cached next position of the curve, if there is one, is such a point.
\<close>

definition onCourse :: "item \<Rightarrow> real \<times> real \<Rightarrow> bool" where
  "onCourse it p \<longleftrightarrow>
     (\<exists>r. p = (shotOriginX it + cos (shotCourse it) * r, shotOriginY it + sin (shotCourse it) * r))"

definition cacheOnCourse :: "item \<Rightarrow> bool" where
  "cacheOnCourse it \<longleftrightarrow> (case nextCurvePos (cache it) of None \<Rightarrow> True | Some p \<Rightarrow> onCourse it p)"

section \<open>Properties of the sweep\<close>

lemma getNextCurvePos_frame:
  "getNextCurvePos it = Some (p, it') \<Longrightarrow> \<exists>c. it' = it\<lparr>cache := c\<rparr>"
  unfolding getNextCurvePos_def
  by (auto split: option.splits Option.bind_splits intro: exI[of _ "cache it"])

lemma getNextPos_frame:
  "getNextPos it = Some (p, it') \<Longrightarrow> \<exists>c. it' = it\<lparr>cache := c\<rparr>"
  unfolding getNextPos_def
  by (auto split: option.splits Option.bind_splits if_splits simp: Let_def dest!: getNextCurvePos_frame intro: exI[of _ "cache it"])

lemma getStepDistance_frame:
  "getStepDistance it = Some (s, it') \<Longrightarrow> \<exists>c. it' = it\<lparr>cache := c\<rparr>"
  unfolding getStepDistance_def
  by (auto split: option.splits Option.bind_splits if_splits simp: Let_def dest!: getNextCurvePos_frame intro: exI[of _ "cache it"])

lemma sweep_a_nonneg: "0 \<le> sweep_a A B sA sB"
  unfolding sweep_a_def by simp

lemma sweep_a_pos: "0 < discriminant A B sA sB \<Longrightarrow> 0 < sweep_a A B sA sB"
proof (rule ccontr)
  assume d: "0 < discriminant A B sA sB" and "\<not> 0 < sweep_a A B sA sB"
  then have a0: "sweep_a A B sA sB = 0" using sweep_a_nonneg[of A B sA sB] by simp
  then have "sweep_dx A B sA sB = 0 \<and> sweep_dy A B sA sB = 0"
    unfolding sweep_a_def by (simp add: sum_squares_eq_zero_iff)
  then have "sweep_b A B sA sB = 0" unfolding sweep_b_def by simp
  with a0 d show False unfolding discriminant_def by simp
qed

lemma root2_less_root1:
  assumes "0 < discriminant A B sA sB"
  shows "root2 A B sA sB < root1 A B sA sB"
proof -
  have a: "0 < sweep_a A B sA sB" using assms by (rule sweep_a_pos)
  have s: "0 < sqrt (discriminant A B sA sB)" using assms by simp
  show ?thesis unfolding root1_def root2_def using a s
    by (simp add: divide_strict_right_mono)
qed

lemma sweepDistance_pos_disc:
  assumes "0 < discriminant A B sA sB"
  shows "sweepDistance A B sA sB =
     Some (if (root1 A B sA sB < 0 \<or> 1 < root1 A B sA sB) \<and>
              (root2 A B sA sB < 0 \<or> 1 < root2 A B sA sB)
           then - 1 else root2 A B sA sB * sA)"
proof -
  have a: "sweep_a A B sA sB \<noteq> 0" using sweep_a_pos[OF assms] by simp
  have lt: "\<not> root1 A B sA sB < root2 A B sA sB"
    using root2_less_root1[OF assms] by simp
  show ?thesis
    unfolding sweepDistance_def using assms a lt
    by (simp add: jsdiv_def root1_def root2_def Let_def)
qed

lemma sweepDistance_nonpos_disc:
  "discriminant A B sA sB \<le> 0 \<Longrightarrow> sweepDistance A B sA sB = Some (- 1)"
  unfolding sweepDistance_def by simp

lemma sweep_cache [simp]:
  "sweep_dx (A\<lparr>cache := c\<rparr>) B sA sB = sweep_dx A B sA sB"
  "sweep_dx A (B\<lparr>cache := c\<rparr>) sA sB = sweep_dx A B sA sB"
  "sweep_dy (A\<lparr>cache := c\<rparr>) B sA sB = sweep_dy A B sA sB"
  "sweep_dy A (B\<lparr>cache := c\<rparr>) sA sB = sweep_dy A B sA sB"
  "sweep_fx (A\<lparr>cache := c\<rparr>) B = sweep_fx A B"
  "sweep_fx A (B\<lparr>cache := c\<rparr>) = sweep_fx A B"
  "sweep_fy (A\<lparr>cache := c\<rparr>) B = sweep_fy A B"
  "sweep_fy A (B\<lparr>cache := c\<rparr>) = sweep_fy A B"
  by (simp_all add: sweep_dx_def sweep_dy_def sweep_fx_def sweep_fy_def)

lemma sweepDistance_cache [simp]:
  "sweepDistance (A\<lparr>cache := c\<rparr>) B sA sB = sweepDistance A B sA sB"
  "sweepDistance A (B\<lparr>cache := c\<rparr>) sA sB = sweepDistance A B sA sB"
  by (simp_all add: sweepDistance_def discriminant_def sweep_a_def sweep_b_def sweep_c_def)

lemma getStepDistance_idem:
  assumes "getStepDistance it = Some (s, it')"
  shows "getStepDistance it' = Some (s, it')"
proof (cases "truthy (stepDistance (cache it))")
  case (Some v)
  with assms show ?thesis by (simp add: getStepDistance_def)
next
  case None
  show ?thesis
  proof (cases "shotCurve it = NoCurve")
    case True
    with None assms have it': "it' = it\<lparr>cache := (cache it)\<lparr>stepDistance := Some s\<rparr>\<rparr>" and s: "s = speed it * unused it"
      by (auto simp: getStepDistance_def Let_def)
    show ?thesis
      using True s by (simp add: it' getStepDistance_def truthy_def Let_def)
  next
    case False
    with None assms obtain p it1 where
      g: "getNextCurvePos it = Some (p, it1)" and
      s: "s = abcSquare (fst p - pos_x it1) (snd p - pos_y it1) * unused it1" and
      it': "it' = it1\<lparr>cache := (cache it1)\<lparr>stepDistance := Some s\<rparr>\<rparr>"
      by (auto simp: getStepDistance_def Let_def split: Option.bind_splits)
    from g have c1: "nextCurvePos (cache it1) = Some p"
      by (auto simp: getNextCurvePos_def split: option.splits Option.bind_splits)
    from g obtain c where it1: "it1 = it\<lparr>cache := c\<rparr>" using getNextCurvePos_frame by blast
    have nc: "shotCurve it' \<noteq> NoCurve" using False it' it1 by simp
    have g': "getNextCurvePos it' = Some (p, it')"
      using c1 by (simp add: getNextCurvePos_def it')
    show ?thesis
      using nc g' s by (simp add: getStepDistance_def truthy_def Let_def) (simp add: it')
  qed
qed

lemma getDistanceToIntersection_eq:
  assumes A: "A < length w" and B: "B < length w"
      and sa: "getStepDistance (w ! A) = Some (sA, a1)"
      and sb: "getStepDistance (w[A := a1] ! B) = Some (sB, b1)"
  shows "getDistanceToIntersection w A B =
           map_option (\<lambda>d. (d, w[A := a1, B := b1])) (sweepDistance (w ! A) (w ! B) sA sB)"
proof -
  obtain ca where a1: "a1 = (w ! A)\<lparr>cache := ca\<rparr>" using getStepDistance_frame[OF sa] by blast
  obtain cb where b1: "b1 = (w[A := a1] ! B)\<lparr>cache := cb\<rparr>"
    using getStepDistance_frame[OF sb] by blast
  have wb: "w[A := a1, B := b1] ! B = b1" using B by simp
  have wa: "w[A := a1, B := b1] ! A = (if A = B then b1 else a1)" using A B by simp
  have w1b: "w[A := a1] ! B = (if A = B then a1 else w ! B)" using A B by simp
  have sw: "sweepDistance (w[A := a1, B := b1] ! A) (w[A := a1, B := b1] ! B) sA sB
            = sweepDistance (w ! A) (w ! B) sA sB"
  proof (cases "A = B")
    case True
    then have "b1 = (w ! A)\<lparr>cache := cb\<rparr>" using b1 a1 A by simp
    then show ?thesis using True wb by simp
  next
    case False
    then have "b1 = (w ! B)\<lparr>cache := cb\<rparr>" using b1 by simp
    then show ?thesis using False wa wb a1 by simp
  qed
  show ?thesis
    unfolding getDistanceToIntersection_def Let_def sa
    by (simp add: sb sw map_option_case split: option.splits)
qed

text \<open>
  Claim C1. \<^verbatim>\<open>getDistanceToIntersection(A, B)\<close> answers \<open>- 1\<close> ("no collision") when
  the discriminant of the relative path of \<open>A\<close> against the circle of radius
  \<^verbatim>\<open>A.radius + B.radius\<close> is at most \<open>0\<close>, and when both roots lie outside
  \<open>[0, 1]\<close>; when both roots lie in \<open>[0, 1]\<close> it answers the smaller root, which is
  not negative, times the step distance of \<open>A\<close>. Here \<open>sA\<close> and \<open>sB\<close> are the step
  distances the function reads, and \<open>a1\<close>, \<open>b1\<close> the two items with their caches
  filled.
\<close>

theorem C1_getDistanceToIntersection:
  assumes "A < length w" and "B < length w"
      and "getStepDistance (w ! A) = Some (sA, a1)"
      and "getStepDistance (w[A := a1] ! B) = Some (sB, b1)"
  shows "(discriminant (w ! A) (w ! B) sA sB \<le> 0 \<longrightarrow>
            getDistanceToIntersection w A B = Some (- 1, w[A := a1, B := b1]))
       \<and> (0 < discriminant (w ! A) (w ! B) sA sB
            \<and> (root1 (w ! A) (w ! B) sA sB < 0 \<or> 1 < root1 (w ! A) (w ! B) sA sB)
            \<and> (root2 (w ! A) (w ! B) sA sB < 0 \<or> 1 < root2 (w ! A) (w ! B) sA sB) \<longrightarrow>
            getDistanceToIntersection w A B = Some (- 1, w[A := a1, B := b1]))
       \<and> (0 < discriminant (w ! A) (w ! B) sA sB
            \<and> 0 \<le> root1 (w ! A) (w ! B) sA sB \<and> root1 (w ! A) (w ! B) sA sB \<le> 1
            \<and> 0 \<le> root2 (w ! A) (w ! B) sA sB \<and> root2 (w ! A) (w ! B) sA sB \<le> 1 \<longrightarrow>
            getDistanceToIntersection w A B =
              Some (min (root1 (w ! A) (w ! B) sA sB) (root2 (w ! A) (w ! B) sA sB) * sA,
                    w[A := a1, B := b1])
            \<and> 0 \<le> min (root1 (w ! A) (w ! B) sA sB) (root2 (w ! A) (w ! B) sA sB))"
proof -
  note eq = getDistanceToIntersection_eq[OF assms]
  have 1: "discriminant (w ! A) (w ! B) sA sB \<le> 0 \<Longrightarrow>
            getDistanceToIntersection w A B = Some (- 1, w[A := a1, B := b1])"
    by (simp add: eq sweepDistance_nonpos_disc)
  have 2: "0 < discriminant (w ! A) (w ! B) sA sB \<Longrightarrow>
            (root1 (w ! A) (w ! B) sA sB < 0 \<or> 1 < root1 (w ! A) (w ! B) sA sB) \<Longrightarrow>
            (root2 (w ! A) (w ! B) sA sB < 0 \<or> 1 < root2 (w ! A) (w ! B) sA sB) \<Longrightarrow>
            getDistanceToIntersection w A B = Some (- 1, w[A := a1, B := b1])"
    by (simp add: eq sweepDistance_pos_disc)
  have 3: "0 < discriminant (w ! A) (w ! B) sA sB \<Longrightarrow>
            0 \<le> root1 (w ! A) (w ! B) sA sB \<Longrightarrow> root1 (w ! A) (w ! B) sA sB \<le> 1 \<Longrightarrow>
            0 \<le> root2 (w ! A) (w ! B) sA sB \<Longrightarrow> root2 (w ! A) (w ! B) sA sB \<le> 1 \<Longrightarrow>
            getDistanceToIntersection w A B =
              Some (min (root1 (w ! A) (w ! B) sA sB) (root2 (w ! A) (w ! B) sA sB) * sA,
                    w[A := a1, B := b1])
            \<and> 0 \<le> min (root1 (w ! A) (w ! B) sA sB) (root2 (w ! A) (w ! B) sA sB)"
    using root2_less_root1[of "w ! A" "w ! B" sA sB]
    by (simp add: eq sweepDistance_pos_disc min_def)
  from 1 2 3 show ?thesis by blast
qed

text \<open>
  An instance: a stone of radius 5 with step distance 40 and a stone of radius 5 at
  rest, the centres 15 apart. The roots are \<open>5/8\<close> and \<open>1/8\<close>, and the contact is
  after a distance of \<open>1/8 * 40 = 5\<close>.
\<close>

lemma sqrt_640000: "sqrt 640000 = 800"
  by (rule real_sqrt_unique) simp_all

lemma fast_small_step:
  "getStepDistance fastStone = Some (40, fastStone')"
  "getStepDistance smallStone = Some (0, smallStone')"
  by (simp_all add: getStepDistance_def fastStone_def smallStone_def fastStone'_def
      smallStone'_def newItem_def emptyCache_def truthy_def)

lemma fast_small_quadratic:
  "discriminant fastStone smallStone 40 0 = 640000"
  "root1 fastStone smallStone 40 0 = 5 / 8"
  "root2 fastStone smallStone 40 0 = 1 / 8"
proof -
  have a: "sweep_a fastStone smallStone 40 0 = 1600"
    by (simp add: sweep_a_def sweep_dx_def sweep_dy_def fastStone_def smallStone_def newItem_def)
  have b: "sweep_b fastStone smallStone 40 0 = - 1200"
    by (simp add: sweep_b_def sweep_dx_def sweep_dy_def sweep_fx_def sweep_fy_def
        fastStone_def smallStone_def newItem_def)
  have c: "sweep_c fastStone smallStone = 125"
    by (simp add: sweep_c_def sweep_fx_def sweep_fy_def fastStone_def smallStone_def newItem_def)
  show d: "discriminant fastStone smallStone 40 0 = 640000"
    by (simp add: discriminant_def a b c)
  show "root1 fastStone smallStone 40 0 = 5 / 8"
    by (simp add: root1_def d a b sqrt_640000)
  show "root2 fastStone smallStone 40 0 = 1 / 8"
    by (simp add: root2_def d a b sqrt_640000)
qed

theorem C1_witness:
  "getDistanceToIntersection [fastStone, smallStone] 0 1 = Some (5, [fastStone', smallStone'])"
  using C1_getDistanceToIntersection[of 0 "[fastStone, smallStone]" 1 40 fastStone' 0 smallStone']
  by (simp add: fast_small_step fast_small_quadratic)

section \<open>The sweep is symmetric in the two items\<close>

lemma sweep_sym:
  "sweep_dx B A sB sA = - sweep_dx A B sA sB"
  "sweep_dy B A sB sA = - sweep_dy A B sA sB"
  "sweep_fx B A = - sweep_fx A B"
  "sweep_fy B A = - sweep_fy A B"
  by (simp_all add: sweep_dx_def sweep_dy_def sweep_fx_def sweep_fy_def)

lemma sweep_abc_sym:
  "sweep_a B A sB sA = sweep_a A B sA sB"
  "sweep_b B A sB sA = sweep_b A B sA sB"
  "sweep_c B A = sweep_c A B"
proof -
  show "sweep_a B A sB sA = sweep_a A B sA sB"
    unfolding sweep_a_def sweep_sym(1,2)[of B A sB sA] by simp
  show "sweep_b B A sB sA = sweep_b A B sA sB"
    unfolding sweep_b_def sweep_sym(1,2)[of B A sB sA] sweep_sym(3,4)[of B A] by simp
  show "sweep_c B A = sweep_c A B"
    unfolding sweep_c_def sweep_sym(3,4)[of B A] by (simp add: add.commute)
qed

lemma discriminant_sym: "discriminant B A sB sA = discriminant A B sA sB"
  unfolding discriminant_def sweep_abc_sym(1,2)[of B A sB sA] sweep_abc_sym(3)[of B A] by (rule refl)

lemma root_sym:
  "root1 B A sB sA = root1 A B sA sB"
  "root2 B A sB sA = root2 A B sA sB"
  unfolding root1_def root2_def sweep_abc_sym(1,2)[of B A sB sA] sweep_abc_sym(3)[of B A] discriminant_sym[of B A sB sA]
  by (rule refl)+

lemma sweepDistance_positive:
  assumes d: "sweepDistance A B sA sB = Some d" and pos: "0 < d" and sA: "0 \<le> sA"
  shows "0 < discriminant A B sA sB \<and> d = root2 A B sA sB * sA
         \<and> 0 < root2 A B sA sB \<and> root2 A B sA sB \<le> 1 \<and> 0 < sA"
proof -
  have disc: "0 < discriminant A B sA sB"
  proof (rule ccontr)
    assume "\<not> 0 < discriminant A B sA sB"
    then have "sweepDistance A B sA sB = Some (- 1)"
      by (simp add: sweepDistance_nonpos_disc)
    with d pos show False by simp
  qed
  let ?t1 = "root1 A B sA sB" and ?t2 = "root2 A B sA sB"
  from d pos have inrange: "\<not> ((?t1 < 0 \<or> 1 < ?t1) \<and> (?t2 < 0 \<or> 1 < ?t2))"
    and deq: "d = ?t2 * sA"
    unfolding sweepDistance_pos_disc[OF disc] by (auto split: if_splits)
  from deq pos sA have sApos: "0 < sA" and t2pos: "0 < ?t2"
    by (auto simp: zero_less_mult_iff)
  have "?t2 < ?t1" by (rule root2_less_root1[OF disc])
  with inrange t2pos have "?t2 \<le> 1" by auto
  with disc deq t2pos sApos show ?thesis by simp
qed

lemma sweepDistance_swap:
  assumes d: "sweepDistance A B sA sB = Some d" and pos: "0 < d" and sA: "0 \<le> sA"
  shows "sweepDistance B A sB sA = Some (root2 A B sA sB * sB)"
proof -
  from sweepDistance_positive[OF assms]
  have disc: "0 < discriminant A B sA sB" and t2: "0 < root2 A B sA sB" "root2 A B sA sB \<le> 1"
    by simp_all
  have disc': "0 < discriminant B A sB sA" using disc unfolding discriminant_sym[of B A sB sA] .
  show ?thesis
    unfolding sweepDistance_pos_disc[OF disc'] root_sym[of B A sB sA] using t2 by simp
qed

lemma getDistanceToIntersection_SomeD:
  assumes "getDistanceToIntersection w A B = Some (d, w1)"
  obtains sA a1 sB b1 where
    "getStepDistance (w ! A) = Some (sA, a1)"
    "getStepDistance (w[A := a1] ! B) = Some (sB, b1)"
    "w1 = w[A := a1, B := b1]"
  using assms unfolding getDistanceToIntersection_def
  by (auto simp: Let_def split: Option.bind_splits)

lemma same_index_no_contact:
  "sweepDistance A A s s = Some (- 1)"
proof -
  have "sweep_a A A s s = 0" by (simp add: sweep_a_def sweep_dx_def sweep_dy_def)
  moreover have "sweep_b A A s s = 0" by (simp add: sweep_b_def sweep_dx_def sweep_dy_def)
  ultimately have "discriminant A A s s = 0" by (simp add: discriminant_def)
  then show ?thesis by (simp add: sweepDistance_nonpos_disc)
qed

lemma root_cache [simp]:
  "root1 (A\<lparr>cache := c\<rparr>) B sA sB = root1 A B sA sB"
  "root1 A (B\<lparr>cache := c\<rparr>) sA sB = root1 A B sA sB"
  "root2 (A\<lparr>cache := c\<rparr>) B sA sB = root2 A B sA sB"
  "root2 A (B\<lparr>cache := c\<rparr>) sA sB = root2 A B sA sB"
  by (simp_all add: root1_def root2_def discriminant_def sweep_a_def sweep_b_def sweep_c_def)

lemma getDistanceToIntersection_filled:
  assumes A: "A < length w" and B: "B < length w"
      and g: "getDistanceToIntersection w A B = Some (d, w1)"
  obtains sA sB a1 where
    "getStepDistance (w ! A) = Some (sA, a1)"
    "getStepDistance (w1 ! A) = Some (sA, w1 ! A)"
    "getStepDistance (w1 ! B) = Some (sB, w1 ! B)"
    "sweepDistance (w ! A) (w ! B) sA sB = Some d"
    "\<exists>c. w1 ! A = (w ! A)\<lparr>cache := c\<rparr>"
    "\<exists>c. w1 ! B = (w ! B)\<lparr>cache := c\<rparr>"
    "A = B \<longrightarrow> sA = sB"
proof -
  from g obtain sA a1 sB b1 where
    sa: "getStepDistance (w ! A) = Some (sA, a1)" and
    sb: "getStepDistance (w[A := a1] ! B) = Some (sB, b1)" and
    w1: "w1 = w[A := a1, B := b1]"
    by (rule getDistanceToIntersection_SomeD)
  from getDistanceToIntersection_eq[OF A B sa sb] g
  have "map_option (\<lambda>d. (d, w[A := a1, B := b1])) (sweepDistance (w ! A) (w ! B) sA sB)
          = Some (d, w1)" by simp
  then have sw: "sweepDistance (w ! A) (w ! B) sA sB = Some d"
    unfolding map_option_eq_Some by blast
  have ia: "getStepDistance a1 = Some (sA, a1)" by (rule getStepDistance_idem[OF sa])
  have ib: "getStepDistance b1 = Some (sB, b1)" by (rule getStepDistance_idem[OF sb])
  have wb: "w1 ! B = b1" using B w1 by simp
  obtain ca where a1: "a1 = (w ! A)\<lparr>cache := ca\<rparr>" using getStepDistance_frame[OF sa] by blast
  obtain cb where b1: "b1 = (w[A := a1] ! B)\<lparr>cache := cb\<rparr>"
    using getStepDistance_frame[OF sb] by blast
  have wa: "w1 ! A = a1 \<and> (A = B \<longrightarrow> sA = sB)"
  proof (cases "A = B")
    case True
    then have "getStepDistance a1 = Some (sB, b1)" using sb A by simp
    with ia have "sB = sA" "b1 = a1" by simp_all
    then show ?thesis using True wb by simp
  next
    case False
    then show ?thesis using A w1 by simp
  qed
  have ca: "\<exists>c. w1 ! A = (w ! A)\<lparr>cache := c\<rparr>" using wa a1 by blast
  have "\<exists>c. b1 = (w ! B)\<lparr>cache := c\<rparr>"
  proof (cases "A = B")
    case True
    then show ?thesis using wa wb a1 by auto
  next
    case False
    then show ?thesis using b1 by auto
  qed
  then have cb: "\<exists>c. w1 ! B = (w ! B)\<lparr>cache := c\<rparr>" using wb by simp
  have 2: "getStepDistance (w1 ! A) = Some (sA, w1 ! A)" using ia wa by simp
  have 3: "getStepDistance (w1 ! B) = Some (sB, w1 ! B)" using ib wb by simp
  from wa have 7: "A = B \<longrightarrow> sA = sB" by simp
  from sa 2 3 sw ca cb 7 show ?thesis by (rule that)
qed

lemma getDistanceToIntersection_length:
  "getDistanceToIntersection w A B = Some (d, w1) \<Longrightarrow> length w1 = length w"
  by (erule getDistanceToIntersection_SomeD) simp

lemma positive_contact:
  assumes A: "A < length w" and B: "B < length w"
      and g: "getDistanceToIntersection w A B = Some (d, w1)"
      and sa: "getStepDistance (w ! A) = Some (sA, a1)"
      and pos: "0 < d" and nn: "0 \<le> sA"
  obtains t sB where
    "0 < t" "t \<le> 1" "0 < sA" "d = t * sA" "A \<noteq> B"
    "getStepDistance (w1 ! A) = Some (sA, w1 ! A)"
    "getStepDistance (w1 ! B) = Some (sB, w1 ! B)"
    "getDistanceToIntersection w1 B A = Some (t * sB, w1)"
    "t = root2 (w ! A) (w ! B) sA sB"
proof -
  obtain sA' sB a1' where
    f1: "getStepDistance (w ! A) = Some (sA', a1')" and
    f2: "getStepDistance (w1 ! A) = Some (sA', w1 ! A)" and
    f3: "getStepDistance (w1 ! B) = Some (sB, w1 ! B)" and
    f4: "sweepDistance (w ! A) (w ! B) sA' sB = Some d" and
    f5: "\<exists>c. w1 ! A = (w ! A)\<lparr>cache := c\<rparr>" and
    f6: "\<exists>c. w1 ! B = (w ! B)\<lparr>cache := c\<rparr>" and
    f7: "A = B \<longrightarrow> sA' = sB"
    by (rule getDistanceToIntersection_filled[OF A B g])
  from f1 sa have e: "sA' = sA" by simp
  note f2 = f2[unfolded e] and f4 = f4[unfolded e] and f7 = f7[unfolded e]
  let ?t = "root2 (w ! A) (w ! B) sA sB"
  from sweepDistance_positive[OF f4 pos nn]
  have p: "0 < ?t" "?t \<le> 1" "0 < sA" "d = ?t * sA" by blast+
  have neq: "A \<noteq> B"
  proof
    assume ab: "A = B"
    with f7 have "sB = sA" by simp
    with f4 ab have "sweepDistance (w ! B) (w ! B) sA sA = Some d" by simp
    then have "d = - 1" unfolding same_index_no_contact by simp
    with pos show False by simp
  qed
  have len: "length w1 = length w" by (rule getDistanceToIntersection_length[OF g])
  from f5 f6 obtain c1 c2 where
    c1: "w1 ! A = (w ! A)\<lparr>cache := c1\<rparr>" and c2: "w1 ! B = (w ! B)\<lparr>cache := c2\<rparr>"
    by blast
  have sw: "sweepDistance (w1 ! B) (w1 ! A) sB sA = Some (?t * sB)"
    unfolding c1 c2 sweepDistance_cache by (rule sweepDistance_swap[OF f4 pos nn])
  have B1: "B < length w1" and A1: "A < length w1" using A B len by simp_all
  have sb1: "getStepDistance (w1 ! B) = Some (sB, w1 ! B)" by (rule f3)
  have u: "w1[B := w1 ! B] = w1" by simp
  have sa1: "getStepDistance (w1[B := w1 ! B] ! A) = Some (sA, w1 ! A)"
    unfolding u by (rule f2)
  have "getDistanceToIntersection w1 B A =
          map_option (\<lambda>d. (d, w1[B := w1 ! B, A := w1 ! A]))
            (sweepDistance (w1 ! B) (w1 ! A) sB sA)"
    by (rule getDistanceToIntersection_eq[OF B1 A1 sb1 sa1])
  also have "\<dots> = Some (?t * sB, w1)" unfolding sw by simp
  finally have g': "getDistanceToIntersection w1 B A = Some (?t * sB, w1)" .
  from p neq f2 f3 g' refl show ?thesis by (rule that)
qed

section \<open>The range of \<^verbatim>\<open>unused\<close>\<close>

lemma list_all_replace:
  "list_all P w \<Longrightarrow> P x \<Longrightarrow> list_all P (w[i := x])"
  by (induction w arbitrary: i) (auto split: nat.splits)

lemma list_all_nthD: "list_all P w \<Longrightarrow> i < length w \<Longrightarrow> P (w ! i)"
  by (simp add: list_all_length)

lemma list_all_modify:
  assumes "list_all P w" and "\<And>it. P it \<Longrightarrow> P (f it)"
  shows "list_all P (w[i := f (w ! i)])"
proof (cases "i < length w")
  case True
  with assms(1) have "P (w ! i)" by (rule list_all_nthD)
  then have "P (f (w ! i))" by (rule assms(2))
  with assms(1) show ?thesis by (rule list_all_replace)
next
  case False
  then show ?thesis using assms(1) by (simp add: list_update_beyond)
qed

lemma abcSquare_nonneg: "0 \<le> abcSquare a b"
  by (simp add: abcSquare_def)

lemma inv_item_simps [simp]:
  "inv_item (it\<lparr>shotCurve := c\<rparr>) = inv_item it"
  "inv_item (it\<lparr>course := k\<rparr>) = inv_item it"
  "inv_item (it\<lparr>pos_x := x\<rparr>) = inv_item it"
  "inv_item (it\<lparr>pos_y := y\<rparr>) = inv_item it"
  "inv_item (it\<lparr>shotTraveled := y\<rparr>) = inv_item it"
  by (simp_all add: inv_item_def wf_item_def unused_ok_def)

lemma inv_item_setPos: "inv_item it \<Longrightarrow> inv_item (setPos it x y)"
  by (simp add: inv_item_def wf_item_def unused_ok_def setPos_def emptyCache_def)

lemma inv_item_cache_curve:
  "inv_item (it\<lparr>cache := (cache it)\<lparr>nextCurvePos := p\<rparr>\<rparr>) = inv_item it"
  "inv_item (it\<lparr>cache := (cache it)\<lparr>nextPos := p\<rparr>\<rparr>) = inv_item it"
  by (simp_all add: inv_item_def wf_item_def unused_ok_def)

lemma getNextCurvePos_inv:
  "getNextCurvePos it = Some (p, it') \<Longrightarrow> inv_item it' = inv_item it"
  unfolding getNextCurvePos_def
  by (auto split: option.splits Option.bind_splits simp: inv_item_cache_curve)

lemma getNextPos_inv:
  "getNextPos it = Some (p, it') \<Longrightarrow> inv_item it' = inv_item it"
  unfolding getNextPos_def
  by (auto split: option.splits Option.bind_splits if_splits
      simp: inv_item_cache_curve Let_def dest: getNextCurvePos_inv)

lemma getStepDistance_inv:
  assumes "getStepDistance it = Some (s, it')" and "inv_item it"
  shows "inv_item it' \<and> 0 \<le> s"
proof (cases "truthy (stepDistance (cache it))")
  case (Some v)
  with assms(1) have "it' = it" "s = v" by (simp_all add: getStepDistance_def)
  moreover from Some have "stepDistance (cache it) = Some v"
    by (auto simp: truthy_def split: option.splits if_splits)
  ultimately show ?thesis using assms(2) by (simp add: inv_item_def wf_item_def)
next
  case None
  show ?thesis
  proof (cases "shotCurve it = NoCurve")
    case True
    with None assms(1) have it': "it' = it\<lparr>cache := (cache it)\<lparr>stepDistance := Some s\<rparr>\<rparr>"
      and s: "s = speed it * unused it"
      by (auto simp: getStepDistance_def Let_def)
    from assms(2) have "0 \<le> s" unfolding s by (simp add: inv_item_def wf_item_def unused_ok_def)
    then show ?thesis using assms(2) by (simp add: it' inv_item_def wf_item_def unused_ok_def)
  next
    case False
    with None assms(1) obtain p it1 where
      g: "getNextCurvePos it = Some (p, it1)" and
      s: "s = abcSquare (fst p - pos_x it1) (snd p - pos_y it1) * unused it1" and
      it': "it' = it1\<lparr>cache := (cache it1)\<lparr>stepDistance := Some s\<rparr>\<rparr>"
      by (auto simp: getStepDistance_def Let_def split: Option.bind_splits)
    have i1: "inv_item it1" using getNextCurvePos_inv[OF g] assms(2) by simp
    then have "0 \<le> s" unfolding s
      by (simp add: inv_item_def unused_ok_def abcSquare_nonneg)
    then show ?thesis using i1 by (simp add: it' inv_item_def wf_item_def unused_ok_def)
  qed
qed

lemma getDistanceToIntersection_inv:
  assumes g: "getDistanceToIntersection w A B = Some (d, w1)" and inv: "list_all inv_item w"
      and A: "A < length w" and B: "B < length w"
  shows "list_all inv_item w1"
proof -
  from g obtain sA a1 sB b1 where
    sa: "getStepDistance (w ! A) = Some (sA, a1)" and
    sb: "getStepDistance (w[A := a1] ! B) = Some (sB, b1)" and
    w1: "w1 = w[A := a1, B := b1]"
    by (rule getDistanceToIntersection_SomeD)
  have "inv_item (w ! A)" using inv A by (rule list_all_nthD)
  with sa have "inv_item a1" using getStepDistance_inv by blast
  with inv have i1: "list_all inv_item (w[A := a1])" by (rule list_all_replace)
  then have "inv_item (w[A := a1] ! B)" using B by (simp add: list_all_length)
  with sb have "inv_item b1" using getStepDistance_inv by blast
  with i1 show ?thesis unfolding w1 by (rule list_all_replace)
qed

lemma moveToContact_length [simp]:
  "length (moveToContact w A B dA dB) = length w"
  by (simp add: moveToContact_def Let_def)

lemma moveToContact_inv:
  assumes "list_all inv_item w"
  shows "list_all inv_item (moveToContact w A B dA dB)"
proof -
  let ?w1 = "w[A := (w ! A)\<lparr>shotCurve := NoCurve\<rparr>]"
  let ?w2 = "?w1[B := (?w1 ! B)\<lparr>shotCurve := NoCurve\<rparr>]"
  let ?w3 = "?w2[A := setPos (?w2 ! A)
                  (pos_x (?w2 ! A) + cos (course (?w2 ! A)) * dA)
                  (pos_y (?w2 ! A) + sin (course (?w2 ! A)) * dA)]"
  let ?w4 = "?w3[B := setPos (?w3 ! B)
                  (pos_x (?w3 ! B) + cos (course (?w3 ! B)) * dB)
                  (pos_y (?w3 ! B) + sin (course (?w3 ! B)) * dB)]"
  have 1: "list_all inv_item ?w1" using assms by (rule list_all_modify) simp
  have 2: "list_all inv_item ?w2" using 1 by (rule list_all_modify) simp
  have 3: "list_all inv_item ?w3"
    using 2 by (rule list_all_modify[where f="\<lambda>it. setPos it _ _"]) (rule inv_item_setPos)
  have 4: "list_all inv_item ?w4"
    using 3 by (rule list_all_modify[where f="\<lambda>it. setPos it _ _"]) (rule inv_item_setPos)
  have 5: "list_all inv_item (?w4[A := setPos (?w4 ! A) x y])" for x y
    using 4 by (rule list_all_modify[where f="\<lambda>it. setPos it _ _"]) (rule inv_item_setPos)
  show ?thesis unfolding moveToContact_def Let_def using 4 5 by (simp split: if_splits)
qed

lemma consumeUnused_exact:
  assumes "0 < sA"
  shows "consumeUnused w A B (t * sA) sA (t * sB) sB =
     Some (let w1 = w[A := (w ! A)\<lparr>unused := unused (w ! A) * t\<rparr>]
           in if sB \<noteq> 0 then w1[B := (w1 ! B)\<lparr>unused := unused (w1 ! B) * t\<rparr>] else w1)"
  using assms by (simp add: consumeUnused_def jsdiv_def Let_def)

lemma inv_item_unused:
  "inv_item it \<Longrightarrow> 0 \<le> t \<Longrightarrow> t \<le> 1 \<Longrightarrow> inv_item (it\<lparr>unused := unused it * t\<rparr>)"
  by (simp add: inv_item_def wf_item_def unused_ok_def mult_le_one)

lemma consumeUnused_inv:
  assumes inv: "list_all inv_item w" and t: "0 < t" "t \<le> 1" and sA: "0 < sA"
      and c: "consumeUnused w A B (t * sA) sA (t * sB) sB = Some w'"
  shows "list_all inv_item w' \<and> length w' = length w"
proof -
  let ?w1 = "w[A := (w ! A)\<lparr>unused := unused (w ! A) * t\<rparr>]"
  have 1: "list_all inv_item ?w1"
    using inv by (rule list_all_modify) (use t in \<open>simp add: inv_item_unused\<close>)
  have 2: "list_all inv_item (?w1[B := (?w1 ! B)\<lparr>unused := unused (?w1 ! B) * t\<rparr>])"
    using 1 by (rule list_all_modify) (use t in \<open>simp add: inv_item_unused\<close>)
  from c have "w' = (if sB \<noteq> 0 then ?w1[B := (?w1 ! B)\<lparr>unused := unused (?w1 ! B) * t\<rparr>] else ?w1)"
    unfolding consumeUnused_exact[OF sA] by (simp add: Let_def)
  with 1 2 show ?thesis by (simp split: if_splits)
qed

lemma angleBetween_bound: "\<bar>angleBetween a b\<bar> \<le> 1"
  by (simp add: angleBetween_def abs_le_iff)

lemma inv_item_speed:
  "inv_item it \<Longrightarrow> 0 \<le> v \<Longrightarrow> inv_item (it\<lparr>speed := v\<rparr>)"
  by (simp add: inv_item_def wf_item_def unused_ok_def)

lemma deflect_inv:
  assumes inv: "list_all inv_item w" and A: "A < length w" and B: "B < length w"
      and d: "deflect w A B = Some w'"
  shows "list_all inv_item w' \<and> length w' = length w"
proof -
  define ab where "ab = abCourse w A B"
  define rel where "rel = relAngle w A B"
  define w1 where "w1 = w[A := (w ! A)\<lparr>course := (if rel > 0 then ab - (pi / 2) else ab - (pi / 2) - pi)\<rparr>]"
  define w2 where "w2 = w1[B := (w1 ! B)\<lparr>course := ab\<rparr>]"
  define F where "F = speed (w2 ! A) * power' (w2 ! A) / power' (w2 ! B)"
  define w3 where "w3 = w2[A := (w2 ! A)\<lparr>speed := speed (w2 ! A) * \<bar>rel\<bar>\<rparr>]"
  define w4 where "w4 = w3[B := (w3 ! B)\<lparr>speed := F * (1 - \<bar>rel\<bar>)\<rparr>]"
  have 1: "list_all inv_item w1" unfolding w1_def using inv by (rule list_all_modify) simp
  have 2: "list_all inv_item w2" unfolding w2_def using 1 by (rule list_all_modify) simp
  have len: "length w2 = length w" by (simp add: w2_def w1_def)
  have iA: "inv_item (w2 ! A)" by (rule list_all_nthD[OF 2]) (simp add: A len)
  have iB: "inv_item (w2 ! B)" by (rule list_all_nthD[OF 2]) (simp add: B len)
  from iB have pB: "power' (w2 ! B) \<noteq> 0" by (simp add: inv_item_def wf_item_def)
  have F: "0 \<le> F" unfolding F_def using iA iB by (simp add: inv_item_def wf_item_def)
  have r: "0 \<le> 1 - \<bar>rel\<bar>"
    unfolding rel_def relAngle_def using angleBetween_bound[of "course (w ! A)" "abCourse w A B"]
    by simp
  have 3: "list_all inv_item w3"
    unfolding w3_def
    using 2 by (rule list_all_modify[where f="\<lambda>it. it\<lparr>speed := speed it * \<bar>rel\<bar>\<rparr>"])
      (simp add: inv_item_def wf_item_def unused_ok_def)
  have Fr: "0 \<le> F * (1 - \<bar>rel\<bar>)" using F r by simp
  have 4: "list_all inv_item w4"
    unfolding w4_def
    using 3 by (rule list_all_modify[where f="\<lambda>it. it\<lparr>speed := F * (1 - \<bar>rel\<bar>)\<rparr>"])
      (rule inv_item_speed[OF _ Fr])
  have "deflect w A B = Some w4"
    unfolding deflect_def Let_def jsdiv_def
    using pB unfolding w4_def w3_def F_def w2_def w1_def rel_def ab_def by simp
  with d have "w' = w4" by simp
  moreover have "length w4 = length w" by (simp add: w4_def w3_def len)
  ultimately show ?thesis using 4 by simp
qed

lemma updateForCollision_contact:
  assumes A: "A < length w" and B: "B < length w"
      and g: "getDistanceToIntersection w A B = Some (d, w1)"
      and sa: "getStepDistance (w ! A) = Some (sA, a1)"
      and pos: "0 < d" and nn: "0 \<le> sA"
  obtains t sB where
    "0 < t" "t \<le> 1" "0 < sA" "d = t * sA" "A \<noteq> B"
    "updateForCollision w1 A B d =
       Option.bind (consumeUnused (moveToContact w1 A B (t * sA) (t * sB)) A B
                      (t * sA) sA (t * sB) sB)
         (\<lambda>w5. deflect w5 A B)"
proof -
  obtain t sB where
    t: "0 < t" "t \<le> 1" "0 < sA" "d = t * sA" "A \<noteq> B" and
    s1: "getStepDistance (w1 ! A) = Some (sA, w1 ! A)" and
    s2: "getStepDistance (w1 ! B) = Some (sB, w1 ! B)" and
    g': "getDistanceToIntersection w1 B A = Some (t * sB, w1)" and
    "t = root2 (w ! A) (w ! B) sA sB"
    by (rule positive_contact[OF A B g sa pos nn])
  have u: "w1[A := w1 ! A] = w1" by simp
  have "updateForCollision w1 A B d =
       Option.bind (consumeUnused (moveToContact w1 A B (t * sA) (t * sB)) A B
                      (t * sA) sA (t * sB) sB)
         (\<lambda>w5. deflect w5 A B)"
    unfolding updateForCollision_def s1 by (simp add: s2 g' t(4))
  with t show ?thesis by (rule that)
qed

lemma updateForCollision_inv:
  assumes A: "A < length w" and B: "B < length w"
      and g: "getDistanceToIntersection w A B = Some (d, w1)"
      and pos: "0 < d" and inv: "list_all inv_item w"
      and u: "updateForCollision w1 A B d = Some w2"
  shows "list_all inv_item w2 \<and> length w2 = length w"
proof -
  from g obtain sA a1 where sa: "getStepDistance (w ! A) = Some (sA, a1)"
    by (auto elim: getDistanceToIntersection_SomeD)
  have "inv_item (w ! A)" using inv A by (rule list_all_nthD)
  with sa have nn: "0 \<le> sA" using getStepDistance_inv by blast
  obtain t sB where
    t: "0 < t" "t \<le> 1" "0 < sA" and
    eq: "updateForCollision w1 A B d =
       Option.bind (consumeUnused (moveToContact w1 A B (t * sA) (t * sB)) A B
                      (t * sA) sA (t * sB) sB)
         (\<lambda>w5. deflect w5 A B)"
    by (rule updateForCollision_contact[OF A B g sa pos nn])
  have len1: "length w1 = length w" by (rule getDistanceToIntersection_length[OF g])
  have i1: "list_all inv_item w1" by (rule getDistanceToIntersection_inv[OF g inv A B])
  have im: "list_all inv_item (moveToContact w1 A B (t * sA) (t * sB))"
    using i1 by (rule moveToContact_inv)
  from u eq obtain w5 where
    c: "consumeUnused (moveToContact w1 A B (t * sA) (t * sB)) A B (t * sA) sA (t * sB) sB = Some w5"
    and df: "deflect w5 A B = Some w2"
    by (auto split: Option.bind_splits)
  from consumeUnused_inv[OF im t(1,2,3) c]
  have i5: "list_all inv_item w5" and len5: "length w5 = length w" by (simp_all add: len1)
  from deflect_inv[OF i5 _ _ df] A B len5 show ?thesis by simp
qed

lemma getClosestItemAfterMove_bound:
  "B < length w \<Longrightarrow> getClosestItemAfterMove w A B d < length w"
  unfolding getClosestItemAfterMove_def Let_def
  by (auto split: option.splits simp: find_Some_iff)

lemma updateIfColliding_inv:
  "list_all inv_item w \<Longrightarrow> item1 < length w \<Longrightarrow> item2 < length w \<Longrightarrow>
   updateIfColliding w item1 item2 n = Some (hit, calls, w') \<Longrightarrow>
   list_all inv_item w' \<and> length w' = length w"
proof (induction w item1 item2 n arbitrary: hit calls w' rule: updateIfColliding.induct)
  case (1 w item1 item2 attempt0)
  define attempt where "attempt = (if attempt0 = 0 then 1 else attempt0)"
  define A where "A = (if speed (w ! item1) \<ge> speed (w ! item2) then item1 else item2)"
  define B where "B = (if A = item1 then item2 else item1)"
  have A: "A < length w" and B: "B < length w"
    using "1.prems"(2,3) by (simp_all add: A_def B_def)
  from "1.prems"(4) obtain d w1 where
    g: "getDistanceToIntersection w A B = Some (d, w1)"
    unfolding updateIfColliding.simps[of w item1 item2 attempt0] Let_def A_def B_def
    by (auto split: Option.bind_splits)
  have len1: "length w1 = length w" by (rule getDistanceToIntersection_length[OF g])
  have i1: "list_all inv_item w1"
    by (rule getDistanceToIntersection_inv[OF g "1.prems"(1) A B])
  define item where "item = getClosestItemAfterMove w1 A B d"
  have item: "item < length w1" unfolding item_def
    using getClosestItemAfterMove_bound[of B w1 A d] B len1 by simp
  have eq: "updateIfColliding w item1 item2 attempt0 =
     (if d > 0 then
        (if item \<noteq> B \<and> attempt < 20 then
           Option.bind (updateIfColliding w1 A item (attempt + 1))
             (\<lambda>(hit, calls, w2). Some (True, Suc calls, w2))
         else Option.bind (updateForCollision w1 A B d) (\<lambda>w2. Some (True, 1, w2)))
      else Some (False, 1, w1))"
    unfolding updateIfColliding.simps[of w item1 item2 attempt0] Let_def
    using g unfolding A_def B_def item_def attempt_def by simp
  show ?case
  proof (cases "d > 0")
    case False
    with eq "1.prems"(4) have "w' = w1" by simp
    with i1 len1 show ?thesis by simp
  next
    case True
    show ?thesis
    proof (cases "item \<noteq> B \<and> attempt < 20")
      case rec: True
      with True eq "1.prems"(4) obtain hit2 calls2 where
        r: "updateIfColliding w1 A item (attempt + 1) = Some (hit2, calls2, w')"
        by (auto split: Option.bind_splits)
      have "list_all inv_item w' \<and> length w' = length w1"
        using "1.IH"[OF attempt_def A_def B_def g refl True item_def rec i1 _ item r]
          A len1 by simp
      then show ?thesis using len1 by simp
    next
      case norec: False
      with True eq "1.prems"(4) have u: "updateForCollision w1 A B d = Some w'"
        by (auto split: Option.bind_splits)
      show ?thesis
        by (rule updateForCollision_inv[OF A B g True "1.prems"(1) u])
    qed
  qed
qed

lemma testOrdered_inv:
  "list_all inv_item w \<Longrightarrow> source < length w \<Longrightarrow> \<forall>c \<in> set cs. c < length w \<Longrightarrow>
   testOrdered w source cs = Some (hit, w') \<Longrightarrow>
   list_all inv_item w' \<and> length w' = length w"
proof (induction cs arbitrary: w)
  case Nil
  then show ?case by simp
next
  case (Cons c cs)
  from Cons.prems(4) obtain h calls w1 where
    u: "updateIfColliding w source c 0 = Some (h, calls, w1)" and
    r: "(if h then Some (True, w1) else testOrdered w1 source cs) = Some (hit, w')"
    by (auto split: Option.bind_splits)
  from updateIfColliding_inv[OF Cons.prems(1,2) _ u] Cons.prems(3)
  have i1: "list_all inv_item w1" and len1: "length w1 = length w" by simp_all
  show ?case
  proof (cases h)
    case True
    with r i1 len1 show ?thesis by simp
  next
    case False
    with r have "testOrdered w1 source cs = Some (hit, w')" by simp
    from Cons.IH[OF i1 _ _ this] Cons.prems(2,3) len1 show ?thesis by simp
  qed
qed

lemma orderByDistance_set [simp]: "set (orderByDistance w arr s) = set arr"
  by (simp add: orderByDistance_def)

lemma sweepItems_inv:
  "list_all inv_item w \<Longrightarrow> \<forall>i \<in> set is. i < length w \<Longrightarrow>
   sweepItems w is = Some (hit, w') \<Longrightarrow>
   list_all inv_item w' \<and> length w' = length w"
proof (induction "is" arbitrary: w)
  case Nil
  then show ?case by simp
next
  case (Cons i rest)
  show ?case
  proof (cases "speed (w ! i) \<noteq> 0 \<and> unused (w ! i) \<noteq> 0")
    case False
    with Cons.prems(3) have "sweepItems w rest = Some (hit, w')" by auto
    from Cons.IH[OF Cons.prems(1) _ this] Cons.prems(2) show ?thesis by simp
  next
    case True
    with Cons.prems(3) obtain h w1 where
      t: "testOrdered w i (tl (orderByDistance w [0..<length w] i)) = Some (h, w1)" and
      r: "(if h then Some (True, w1) else sweepItems w1 rest) = Some (hit, w')"
      by (auto simp: Let_def split: Option.bind_splits)
    have "set (tl (orderByDistance w [0..<length w] i)) \<subseteq> set [0..<length w]"
      using list.set_sel(2)[of "orderByDistance w [0..<length w] i"]
      by (cases "orderByDistance w [0..<length w] i = []") auto
    then have bnd: "\<forall>c \<in> set (tl (orderByDistance w [0..<length w] i)). c < length w"
      by auto
    from testOrdered_inv[OF Cons.prems(1) _ bnd t] Cons.prems(2)
    have i1: "list_all inv_item w1" and len1: "length w1 = length w" by simp_all
    show ?thesis
    proof (cases h)
      case True
      with r i1 len1 show ?thesis by simp
    next
      case False
      with r have "sweepItems w1 rest = Some (hit, w')" by simp
      from Cons.IH[OF i1 _ this] Cons.prems(2) len1 show ?thesis by simp
    qed
  qed
qed

lemma collisionStep_inv:
  "list_all inv_item w \<Longrightarrow> collisionStep w = Some (hit, w') \<Longrightarrow>
   list_all inv_item w' \<and> length w' = length w"
  unfolding collisionStep_def by (rule sweepItems_inv) simp_all

lemma collisionLoop_inv:
  "list_all inv_item w \<Longrightarrow> collisionLoop w n = Some (stepped, passes, w') \<Longrightarrow>
   list_all inv_item w' \<and> length w' = length w"
proof (induction w n arbitrary: stepped passes w' rule: collisionLoop.induct)
  case (1 w loopBreaker)
  from "1.prems"(2) obtain thisTime w1 where
    c: "collisionStep w = Some (thisTime, w1)"
    unfolding collisionLoop.simps[of w loopBreaker] by (auto split: Option.bind_splits)
  from collisionStep_inv[OF "1.prems"(1) c]
  have i1: "list_all inv_item w1" and len1: "length w1 = length w" by simp_all
  show ?case
  proof (cases "thisTime \<and> Suc loopBreaker < 10")
    case True
    with "1.prems"(2) c obtain s p where
      r: "collisionLoop w1 (Suc loopBreaker) = Some (s, p, w')"
      unfolding collisionLoop.simps[of w loopBreaker]
      by (auto simp: stepCollisions_def split: Option.bind_splits)
    have ns: "\<not> (stepCollisions \<and> thisTime)" by (simp add: stepCollisions_def)
    from "1.IH"[OF c refl ns True i1 r] len1 show ?thesis by simp
  next
    case False
    with "1.prems"(2) c have "w' = w1"
      unfolding collisionLoop.simps[of w loopBreaker]
      by (auto simp: stepCollisions_def split: Option.bind_splits if_splits)
    with i1 len1 show ?thesis by simp
  qed
qed

lemma resetItems_inv:
  "list_all wf_item w \<Longrightarrow> list_all inv_item (resetItems w)"
  by (simp add: resetItems_def list_all_iff inv_item_def wf_item_def unused_ok_def)

lemma tick_state_inv:
  "tick_state W w \<Longrightarrow> list_all wf_item (items W) \<Longrightarrow> list_all inv_item w"
proof (induction rule: tick_state.induct)
  case start
  then show ?case by (simp add: stepCollisions_def resetItems_inv)
next
  case (pass w hit w')
  then show ?case using collisionStep_inv by blast
qed

lemma getCourseToNextPositionOnCurve_inv:
  "getCourseToNextPositionOnCurve it = Some (c, it') \<Longrightarrow> inv_item it' = inv_item it"
  unfolding getCourseToNextPositionOnCurve_def
  by (auto split: Option.bind_splits dest: getNextPos_inv)

lemma applyPhysicsItem_inv:
  assumes "inv_item it" and "applyPhysicsItem it = Some it'"
  shows "inv_item it'"
proof (cases "speed it \<noteq> 0 \<and> unused it \<noteq> 0")
  case False
  with assms show ?thesis by (auto simp: applyPhysicsItem_def)
next
  case True
  from True assms(2) obtain it1 it3 where
    1: "(if shotCurve it \<noteq> NoCurve
         then Option.bind (getNextCurvePos it) (\<lambda>(obj, it0). Some (setPos it0 (fst obj) (snd obj)))
         else Some (setPos it (pos_x it + cos (course it) * speed it * unused it)
                              (pos_y it + sin (course it) * speed it * unused it))) = Some it1" and
    3: "(if shotCurve (it1\<lparr>shotTraveled := shotTraveled it1 + speed it1\<rparr>) \<noteq> NoCurve
         then Option.bind (getCourseToNextPositionOnCurve (it1\<lparr>shotTraveled := shotTraveled it1 + speed it1\<rparr>))
                (\<lambda>(c, it0). Some (it0\<lparr>course := c\<rparr>))
         else Some (it1\<lparr>shotTraveled := shotTraveled it1 + speed it1\<rparr>)) = Some it3" and
    5: "it' = (if speed it3 * friction it3 < stopSpeed
               then it3\<lparr>speed := speed it3 * friction it3, speed := 0\<rparr>
               else it3\<lparr>speed := speed it3 * friction it3\<rparr>)\<lparr>unused := 0\<rparr>"
    unfolding applyPhysicsItem_def Let_def
    by (auto split: Option.bind_splits)
  have i1: "inv_item it1"
    using 1 assms(1)
    by (auto split: if_splits Option.bind_splits dest: getNextCurvePos_inv intro: inv_item_setPos)
  have i3: "inv_item it3"
    using 3 i1
    by (auto split: if_splits Option.bind_splits dest: getCourseToNextPositionOnCurve_inv)
  show ?thesis unfolding 5 using i3
    by (simp add: inv_item_def wf_item_def unused_ok_def)
qed

lemma applyPhysicsItems_inv:
  "list_all inv_item w \<Longrightarrow> applyPhysicsItems w = Some (m, w') \<Longrightarrow> list_all inv_item w'"
proof (induction w arbitrary: m w')
  case Nil
  then show ?case by simp
next
  case (Cons it rest)
  from Cons.prems(2) obtain it1 m1 rest1 where
    a: "applyPhysicsItem it = Some it1" and
    r: "applyPhysicsItems rest = Some (m1, rest1)" and
    w': "w' = it1 # rest1"
    by (auto split: Option.bind_splits)
  from Cons.prems(1) have "inv_item it" "list_all inv_item rest" by simp_all
  with a r Cons.IH have "inv_item it1" "list_all inv_item rest1"
    using applyPhysicsItem_inv by blast+
  then show ?case by (simp add: w')
qed

lemma collisionLoop_tick_state:
  "tick_state W w \<Longrightarrow> collisionLoop w n = Some (stepped, passes, w') \<Longrightarrow> tick_state W w'"
proof (induction w n arbitrary: stepped passes w' rule: collisionLoop.induct)
  case (1 w loopBreaker)
  from "1.prems"(2) obtain thisTime w1 where
    c: "collisionStep w = Some (thisTime, w1)"
    unfolding collisionLoop.simps[of w loopBreaker] by (auto split: Option.bind_splits)
  have t1: "tick_state W w1" using "1.prems"(1) c by (rule tick_state.pass)
  show ?case
  proof (cases "thisTime \<and> Suc loopBreaker < 10")
    case True
    with "1.prems"(2) c obtain s p where
      r: "collisionLoop w1 (Suc loopBreaker) = Some (s, p, w')"
      unfolding collisionLoop.simps[of w loopBreaker]
      by (auto simp: stepCollisions_def split: Option.bind_splits)
    have ns: "\<not> (stepCollisions \<and> thisTime)" by (simp add: stepCollisions_def)
    from "1.IH"[OF c refl ns True t1 r] show ?thesis .
  next
    case False
    with "1.prems"(2) c have "w' = w1"
      unfolding collisionLoop.simps[of w loopBreaker]
      by (auto simp: stepCollisions_def split: Option.bind_splits if_splits)
    with t1 show ?thesis by simp
  qed
qed

lemma tick_SomeD:
  assumes "tick W = Some (r, W')"
  obtains passes w1 where
    "collisionLoop (resetItems (items W)) 0 = Some (False, passes, w1)"
    "applyPhysics w1 = Some (r, items W')"
proof -
  from assms obtain stepped passes w1 where
    l: "collisionLoop (resetItems (items W)) 0 = Some (stepped, passes, w1)" and
    r: "(if stepped then Some (True, W\<lparr>items := w1, lastFinished := False\<rparr>)
         else Option.bind (applyPhysics w1)
                (\<lambda>(moving, w2). Some (moving, W\<lparr>items := w2, lastFinished := True\<rparr>))) = Some (r, W')"
    unfolding tick_def Let_def by (auto simp: stepCollisions_def split: Option.bind_splits)
  have ns: "\<not> stepped"
  proof
    assume "stepped"
    have "\<And>w n s p w'. collisionLoop w n = Some (s, p, w') \<Longrightarrow> \<not> s"
    proof -
      fix w n s p w'
      show "collisionLoop w n = Some (s, p, w') \<Longrightarrow> \<not> s"
      proof (induction w n arbitrary: s p w' rule: collisionLoop.induct)
        case (1 w loopBreaker)
        from "1.prems" obtain thisTime w1 where
          c: "collisionStep w = Some (thisTime, w1)"
          unfolding collisionLoop.simps[of w loopBreaker] by (auto split: Option.bind_splits)
        have ns: "\<not> (stepCollisions \<and> thisTime)" by (simp add: stepCollisions_def)
        show ?case
        proof (cases "thisTime \<and> Suc loopBreaker < 10")
          case True
          with "1.prems" c obtain s1 p1 where
            "collisionLoop w1 (Suc loopBreaker) = Some (s1, p1, w')" "s = s1"
            unfolding collisionLoop.simps[of w loopBreaker]
            by (auto simp: stepCollisions_def split: Option.bind_splits)
          with "1.IH"[OF c refl ns True] show ?thesis by simp
        next
          case False
          with "1.prems" c show ?thesis
            unfolding collisionLoop.simps[of w loopBreaker]
            by (auto simp: stepCollisions_def split: Option.bind_splits if_splits)
        qed
      qed
    qed
    with l \<open>stepped\<close> show False by blast
  qed
  with r obtain w2 where "applyPhysics w1 = Some (r, w2)" "W' = W\<lparr>items := w2, lastFinished := True\<rparr>"
    by (auto split: Option.bind_splits)
  with l ns show ?thesis by (intro that[of passes w1]) simp_all
qed

lemma inv_item_unused_ok: "list_all inv_item w \<Longrightarrow> list_all unused_ok w"
  by (simp add: list_all_iff inv_item_def)

text \<open>
  Claim C2. In a world whose items are well formed, \<^verbatim>\<open>unused\<close> of every item lies in
  \<open>[0, 1]\<close> at every point of a tick: it is \<open>1\<close> after the reset, it lies in \<open>[0, 1]\<close>
  after the reset and after each collision pass, and it lies in \<open>[0, 1]\<close> when
  \<^verbatim>\<open>tick()\<close> returns.
\<close>

theorem C2_unused_in_range:
  assumes "list_all wf_item (items W)"
  shows "list_all (\<lambda>it. unused it = 1) (resetItems (items W))
       \<and> (\<forall>w. tick_state W w \<longrightarrow> list_all unused_ok w)
       \<and> (\<forall>r W'. tick W = Some (r, W') \<longrightarrow> list_all unused_ok (items W'))"
proof -
  have 1: "list_all (\<lambda>it. unused it = 1) (resetItems (items W))"
    by (simp add: resetItems_def list_all_iff)
  have 2: "list_all unused_ok w" if "tick_state W w" for w
    using tick_state_inv[OF that assms] by (rule inv_item_unused_ok)
  have 3: "list_all unused_ok (items W')" if t: "tick W = Some (r, W')" for r W'
  proof -
    obtain passes w1 where
      l: "collisionLoop (resetItems (items W)) 0 = Some (False, passes, w1)" and
      a: "applyPhysics w1 = Some (r, items W')"
      by (rule tick_SomeD[OF t])
    have "list_all inv_item w1"
      using collisionLoop_inv[OF resetItems_inv[OF assms] l] by simp
    then have "list_all inv_item (items W')"
      using a unfolding applyPhysics_def by (rule applyPhysicsItems_inv)
    then show ?thesis by (rule inv_item_unused_ok)
  qed
  from 1 2 3 show ?thesis by blast
qed

section \<open>A contact lies within the step\<close>

lemma nth_modify_field:
  assumes "\<And>it. g (f it) = g it" and "j < length w"
  shows "g (w[i := f (w ! i)] ! j) = g (w ! j)"
  using assms by (cases "i = j") simp_all

lemma moveToContact_unused:
  assumes i: "i < length w"
  shows "unused (moveToContact w A B dA dB ! i) = unused (w ! i)"
proof -
  define w1 where "w1 = w[A := (w ! A)\<lparr>shotCurve := NoCurve\<rparr>]"
  define w2 where "w2 = w1[B := (w1 ! B)\<lparr>shotCurve := NoCurve\<rparr>]"
  define w3 where "w3 = w2[A := setPos (w2 ! A)
                  (pos_x (w2 ! A) + cos (course (w2 ! A)) * dA)
                  (pos_y (w2 ! A) + sin (course (w2 ! A)) * dA)]"
  define w4 where "w4 = w3[B := setPos (w3 ! B)
                  (pos_x (w3 ! B) + cos (course (w3 ! B)) * dB)
                  (pos_y (w3 ! B) + sin (course (w3 ! B)) * dB)]"
  have 1: "unused (w1 ! i) = unused (w ! i)"
    unfolding w1_def by (rule nth_modify_field[OF _ i]) simp
  have 2: "unused (w2 ! i) = unused (w1 ! i)"
    unfolding w2_def by (rule nth_modify_field) (simp_all add: i w1_def)
  have 3: "unused (w3 ! i) = unused (w2 ! i)"
    unfolding w3_def by (rule nth_modify_field[where f="\<lambda>it. setPos it _ _"])
      (simp_all add: i w1_def w2_def setPos_def)
  have 4: "unused (w4 ! i) = unused (w3 ! i)"
    unfolding w4_def by (rule nth_modify_field[where f="\<lambda>it. setPos it _ _"])
      (simp_all add: i w1_def w2_def w3_def setPos_def)
  have 5: "unused (w4[A := setPos (w4 ! A) x y] ! i) = unused (w4 ! i)" for x y
    by (rule nth_modify_field[where f="\<lambda>it. setPos it _ _"])
      (simp_all add: i w1_def w2_def w3_def w4_def setPos_def)
  have "moveToContact w A B dA dB =
     (if distanceBetween (w4 ! A) (w4 ! B) < radius (w4 ! A) + radius (w4 ! B)
      then w4[A := setPos (w4 ! A)
                  (pos_x (w2 ! A) + cos (course (w4 ! A)) * dA * (95 / 100))
                  (pos_y (w2 ! A) + sin (course (w4 ! A)) * dA * (95 / 100))]
      else w4)"
    unfolding moveToContact_def Let_def w4_def w3_def w2_def w1_def by (rule refl)
  then show ?thesis using 1 2 3 4 5 by (simp split: if_splits)
qed

lemma deflect_unused:
  assumes d: "deflect w A B = Some w'" and i: "i < length w"
  shows "unused (w' ! i) = unused (w ! i)"
proof -
  define ab where "ab = abCourse w A B"
  define rel where "rel = relAngle w A B"
  define w1 where "w1 = w[A := (w ! A)\<lparr>course := (if rel > 0 then ab - (pi / 2) else ab - (pi / 2) - pi)\<rparr>]"
  define w2 where "w2 = w1[B := (w1 ! B)\<lparr>course := ab\<rparr>]"
  define w3 where "w3 = w2[A := (w2 ! A)\<lparr>speed := speed (w2 ! A) * \<bar>rel\<bar>\<rparr>]"
  from d obtain F where w': "w' = w3[B := (w3 ! B)\<lparr>speed := F * (1 - \<bar>rel\<bar>)\<rparr>]"
    unfolding deflect_def Let_def w3_def w2_def w1_def rel_def ab_def
    by (auto split: Option.bind_splits)
  have 1: "unused (w1 ! i) = unused (w ! i)"
    unfolding w1_def by (rule nth_modify_field[OF _ i]) simp
  have 2: "unused (w2 ! i) = unused (w1 ! i)"
    unfolding w2_def by (rule nth_modify_field) (simp_all add: i w1_def)
  have 3: "unused (w3 ! i) = unused (w2 ! i)"
    unfolding w3_def
    by (rule nth_modify_field[where f="\<lambda>it. it\<lparr>speed := speed it * \<bar>rel\<bar>\<rparr>"])
       (simp_all add: i w1_def w2_def)
  have 4: "unused (w' ! i) = unused (w3 ! i)"
    unfolding w'
    by (rule nth_modify_field[where f="\<lambda>it. it\<lparr>speed := F * (1 - \<bar>rel\<bar>)\<rparr>"])
       (simp_all add: i w1_def w2_def w3_def)
  from 1 2 3 4 show ?thesis by simp
qed

text \<open>
  Claim C10. When \<^verbatim>\<open>getDistanceToIntersection(A, B)\<close> answers a positive distance \<open>d\<close>,
  and the step distance \<open>sA\<close> of \<open>A\<close> is not negative (as it is when speed and
  \<^verbatim>\<open>unused\<close> are not negative), then \<open>d\<close> is at most \<open>sA\<close>, the quotient \<open>d / sA\<close>
  lies in \<open>(0, 1]\<close>, and \<^verbatim>\<open>updateForCollision\<close> multiplies \<^verbatim>\<open>unused\<close> of \<open>A\<close> by that
  quotient.
\<close>

theorem C10_contact_within_step:
  assumes "A < length w" and "B < length w"
      and "getStepDistance (w ! A) = Some (sA, a1)" and "0 \<le> sA"
      and "getDistanceToIntersection w A B = Some (d, w1)" and "0 < d"
  shows "d \<le> sA \<and> 0 < d / sA \<and> d / sA \<le> 1
       \<and> (\<forall>w2. updateForCollision w1 A B d = Some w2 \<longrightarrow>
             unused (w2 ! A) = unused (w ! A) * (d / sA))"
proof -
  obtain t sB where
    t: "0 < t" "t \<le> 1" "0 < sA" "d = t * sA" "A \<noteq> B" and
    eq: "updateForCollision w1 A B d =
       Option.bind (consumeUnused (moveToContact w1 A B (t * sA) (t * sB)) A B
                      (t * sA) sA (t * sB) sB)
         (\<lambda>w5. deflect w5 A B)"
    by (rule updateForCollision_contact[OF assms(1,2,5,3,6,4)])
  have q: "d / sA = t" using t(3,4) by simp
  have le: "d \<le> sA" using t(2,3,4) by (simp add: mult_le_cancel_right1)
  obtain sA' sB' a1' where
    "getStepDistance (w ! A) = Some (sA', a1')"
    "getStepDistance (w1 ! A) = Some (sA', w1 ! A)"
    "getStepDistance (w1 ! B) = Some (sB', w1 ! B)"
    "sweepDistance (w ! A) (w ! B) sA' sB' = Some d" and
    f5: "\<exists>c. w1 ! A = (w ! A)\<lparr>cache := c\<rparr>" and
    "\<exists>c. w1 ! B = (w ! B)\<lparr>cache := c\<rparr>"
    "A = B \<longrightarrow> sA' = sB'"
    by (rule getDistanceToIntersection_filled[OF assms(1,2,5)])
  from f5 have u1: "unused (w1 ! A) = unused (w ! A)" by auto
  have len1: "length w1 = length w" by (rule getDistanceToIntersection_length[OF assms(5)])
  have "unused (w2 ! A) = unused (w ! A) * t" if u: "updateForCollision w1 A B d = Some w2" for w2
  proof -
    let ?m = "moveToContact w1 A B (t * sA) (t * sB)"
    from u eq obtain w5 where
      c: "consumeUnused ?m A B (t * sA) sA (t * sB) sB = Some w5" and
      df: "deflect w5 A B = Some w2"
      by (auto split: Option.bind_splits)
    have A1: "A < length ?m" using assms(1) len1 by simp
    from c have w5: "w5 = (let w1 = ?m[A := (?m ! A)\<lparr>unused := unused (?m ! A) * t\<rparr>]
           in if sB \<noteq> 0 then w1[B := (w1 ! B)\<lparr>unused := unused (w1 ! B) * t\<rparr>] else w1)"
      unfolding consumeUnused_exact[OF t(3)] by simp
    have l5: "length w5 = length w" unfolding w5 using len1 by (simp add: Let_def)
    have "unused (w5 ! A) = unused (?m ! A) * t"
      unfolding w5 using A1 t(5) by (simp add: Let_def)
    also have "unused (?m ! A) = unused (w1 ! A)"
      by (rule moveToContact_unused) (simp add: assms(1) len1)
    finally have "unused (w5 ! A) = unused (w ! A) * t" using u1 by simp
    moreover have "unused (w2 ! A) = unused (w5 ! A)"
      by (rule deflect_unused[OF df]) (simp add: l5 assms(1))
    ultimately show ?thesis by simp
  qed
  with q le t(1,2) show ?thesis by simp
qed

section \<open>A tick of two stones, evaluated\<close>

text \<open>
  The fast stone reaches the stone at rest after 5 of its 40: the first pass resolves
  that collision, the second pass finds none, and the physics moves the stone that was
  hit.
\<close>

lemma abcSquare_axis: "abcSquare a 0 = \<bar>a\<bar>"
  by (simp add: abcSquare_def)

lemma fast_small_step':
  "getStepDistance fastStone' = Some (40, fastStone')"
  "getStepDistance smallStone' = Some (0, smallStone')"
  by (simp_all add: getStepDistance_def fastStone_def smallStone_def fastStone'_def
      smallStone'_def newItem_def emptyCache_def truthy_def)

lemma fast_small_sweep: "sweepDistance fastStone smallStone 40 0 = Some 5"
  by (simp add: sweepDistance_pos_disc fast_small_quadratic)

lemma small_fast_sweep: "sweepDistance smallStone fastStone 0 40 = Some 0"
  using sweepDistance_swap[of fastStone smallStone 40 0 5 ] fast_small_sweep
  by (simp add: fast_small_quadratic)

lemma fast_small_contact:
  "getDistanceToIntersection [fastStone, smallStone] 0 (Suc 0) = Some (5, [fastStone', smallStone'])"
  using getDistanceToIntersection_eq[of 0 "[fastStone, smallStone]" 1 40 fastStone' 0 smallStone']
  by (simp add: fast_small_step fast_small_sweep)

lemma stone_cache:
  "fastStone' = fastStone\<lparr>cache := emptyCache\<lparr>stepDistance := Some 40\<rparr>\<rparr>"
  "smallStone' = smallStone\<lparr>cache := emptyCache\<lparr>stepDistance := Some 0\<rparr>\<rparr>"
  by (simp_all add: fastStone'_def smallStone'_def)

lemma small_fast_sweep': "sweepDistance smallStone' fastStone' 0 40 = Some 0"
  unfolding stone_cache sweepDistance_cache by (rule small_fast_sweep)

lemma small_fast_contact':
  "getDistanceToIntersection [fastStone', smallStone'] (Suc 0) 0 = Some (0, [fastStone', smallStone'])"
  using getDistanceToIntersection_eq[of 1 "[fastStone', smallStone']" 0 0 smallStone' 40 fastStone']
  by (simp add: fast_small_step' small_fast_sweep')

lemma fast_small_move:
  "moveToContact [fastStone', smallStone'] 0 (Suc 0) 5 0 =
     [fastStone\<lparr>pos_x := 5\<rparr>, smallStone]"
  by (simp add: moveToContact_def Let_def setPos_def distanceBetween_def abcSquare_axis
      fastStone'_def smallStone'_def fastStone_def smallStone_def newItem_def)

lemma fast_small_consume:
  "consumeUnused [fastStone\<lparr>pos_x := 5\<rparr>, smallStone] 0 (Suc 0) 5 40 0 0 =
     Some [fastStone\<lparr>pos_x := 5, unused := 1 / 8\<rparr>, smallStone]"
  by (simp add: consumeUnused_def jsdiv_def Let_def fastStone_def newItem_def)

lemma fast_small_deflect:
  "deflect [fastStone\<lparr>pos_x := 5, unused := 1 / 8\<rparr>, smallStone] 0 (Suc 0) = Some [fastHit, smallHit]"
  by (simp add: deflect_def Let_def jsdiv_def abCourse_def relAngle_def getCourse_def atan2_def
      angleBetween_def fastHit_def smallHit_def fastStone_def smallStone_def newItem_def)

lemma fast_small_update:
  "updateForCollision [fastStone', smallStone'] 0 (Suc 0) 5 = Some [fastHit, smallHit]"
  by (simp add: updateForCollision_def fast_small_step' small_fast_contact' fast_small_move
      fast_small_consume fast_small_deflect)

lemma upt_2: "[0..<2] = [0, Suc 0]"
  by (simp add: upt_rec)

lemma fast_small_closest:
  "getClosestItemAfterMove [fastStone', smallStone'] 0 (Suc 0) 5 = Suc 0"
  by (simp add: getClosestItemAfterMove_def Let_def upt_rec)

lemma fast_small_speeds:
  "speed fastStone = 40" "speed smallStone = 0" "unused fastStone = 1" "unused smallStone = 1"
  "speed fastHit = 0" "speed smallHit = 40" "unused smallHit = 1"
  by (simp_all add: fastStone_def smallStone_def fastHit_def smallHit_def newItem_def)

lemma fast_small_collide:
  "updateIfColliding [fastStone, smallStone] 0 (Suc 0) 0 = Some (True, 1, [fastHit, smallHit])"
  by (simp add: updateIfColliding.simps[of "[fastStone, smallStone]"] Let_def fast_small_speeds
      fast_small_contact fast_small_closest fast_small_update)

lemma fast_small_order:
  "orderByDistance [fastStone, smallStone] [0, Suc 0] 0 = [0, Suc 0]"
  by (simp add: orderByDistance_def distanceBetween_def abcSquare_axis
      fastStone_def smallStone_def newItem_def)

lemma fast_small_pass:
  "collisionStep [fastStone, smallStone] = Some (True, [fastHit, smallHit])"
  by (simp add: collisionStep_def upt_2 fast_small_speeds fast_small_order fast_small_collide)

lemma hit_step:
  "getStepDistance smallHit = Some (40, smallHit')"
  "getStepDistance fastHit = Some (0, fastHit')"
  by (simp_all add: getStepDistance_def fastHit_def smallHit_def fastHit'_def smallHit'_def
      fastStone_def smallStone_def newItem_def emptyCache_def truthy_def)

lemma hit_quadratic:
  "discriminant smallHit fastHit 40 0 = 640000"
  "root1 smallHit fastHit 40 0 = 0"
  "root2 smallHit fastHit 40 0 = - (1 / 2)"
proof -
  have a: "sweep_a smallHit fastHit 40 0 = 1600"
    by (simp add: sweep_a_def sweep_dx_def sweep_dy_def fastHit_def smallHit_def
        fastStone_def smallStone_def newItem_def)
  have b: "sweep_b smallHit fastHit 40 0 = 800"
    by (simp add: sweep_b_def sweep_dx_def sweep_dy_def sweep_fx_def sweep_fy_def
        fastHit_def smallHit_def fastStone_def smallStone_def newItem_def)
  have c: "sweep_c smallHit fastHit = 0"
    by (simp add: sweep_c_def sweep_fx_def sweep_fy_def fastHit_def smallHit_def
        fastStone_def smallStone_def newItem_def)
  show d: "discriminant smallHit fastHit 40 0 = 640000"
    by (simp add: discriminant_def a b c)
  show "root1 smallHit fastHit 40 0 = 0"
    by (simp add: root1_def d a b sqrt_640000)
  show "root2 smallHit fastHit 40 0 = - (1 / 2)"
    by (simp add: root2_def d a b sqrt_640000)
qed

lemma hit_sweep: "sweepDistance smallHit fastHit 40 0 = Some (- 20)"
  by (simp add: sweepDistance_pos_disc hit_quadratic)

lemma hit_contact:
  "getDistanceToIntersection [fastHit, smallHit] (Suc 0) 0 = Some (- 20, [fastHit', smallHit'])"
  using getDistanceToIntersection_eq[of "Suc 0" "[fastHit, smallHit]" 0 40 smallHit' 0 fastHit']
  by (simp add: hit_step hit_sweep)

lemma hit_collide:
  "updateIfColliding [fastHit, smallHit] (Suc 0) 0 0 = Some (False, 1, [fastHit', smallHit'])"
  by (simp add: updateIfColliding.simps[of "[fastHit, smallHit]"] Let_def fast_small_speeds
      hit_contact)

lemma hit_order:
  "orderByDistance [fastHit, smallHit] [0, Suc 0] (Suc 0) = [Suc 0, 0]"
  by (simp add: orderByDistance_def distanceBetween_def abcSquare_axis
      fastHit_def smallHit_def fastStone_def smallStone_def newItem_def)

lemma hit_pass:
  "collisionStep [fastHit, smallHit] = Some (False, [fastHit', smallHit'])"
  by (simp add: collisionStep_def upt_2 fast_small_speeds hit_order hit_collide)

lemma two_stones_loop:
  "collisionLoop [fastStone, smallStone] 0 = Some (False, 2, [fastHit', smallHit'])"
  by (simp add: collisionLoop.simps[of _ 0] collisionLoop.simps[of _ "Suc 0"]
      fast_small_pass hit_pass stepCollisions_def)

lemma two_stones_physics:
  "applyPhysics [fastHit', smallHit'] = Some (True, [fastHit', smallMoved])"
  by (simp add: applyPhysics_def applyPhysicsItem_def Let_def setPos_def stopSpeed_def
      fastHit'_def smallHit'_def smallMoved_def fastHit_def smallHit_def
      fastStone_def smallStone_def newItem_def)

lemma two_stones_reset: "resetItems [fastStone, smallStone] = [fastStone, smallStone]"
  by (simp add: resetItems_def fastStone_def smallStone_def newItem_def)

lemma two_stones_tick:
  "tick twoStones = Some (True, \<lparr>items = [fastHit', smallMoved], lastFinished = True\<rparr>)"
  by (simp add: tick_def twoStones_def stepCollisions_def two_stones_reset two_stones_loop
      two_stones_physics)

text \<open>Claim C10 on the two stones: the contact uses \<open>5 / 40\<close> of the step.\<close>

theorem C10_witness:
  "getDistanceToIntersection [fastStone, smallStone] 0 1 = Some (5, [fastStone', smallStone'])
   \<and> (5 :: real) \<le> 40 \<and> (0 :: real) < 5 / 40 \<and> (5 :: real) / 40 \<le> 1
   \<and> updateForCollision [fastStone', smallStone'] 0 1 5 = Some [fastHit, smallHit]
   \<and> unused fastHit = unused fastStone * (5 / 40)"
  using C10_contact_within_step[of 0 "[fastStone, smallStone]" 1 40 fastStone' 5
      "[fastStone', smallStone']"]
  by (simp add: fast_small_step fast_small_contact fast_small_update)

lemma two_stones_wf: "list_all wf_item (items twoStones)"
  by (simp add: twoStones_def wf_item_def fastStone_def smallStone_def newItem_def emptyCache_def)

lemma two_stones_state: "tick_state twoStones [fastHit, smallHit]"
proof -
  have "tick_state twoStones [fastStone, smallStone]"
    using tick_state.start[of twoStones]
    by (simp add: twoStones_def stepCollisions_def two_stones_reset)
  then show ?thesis using fast_small_pass by (rule tick_state.pass)
qed

text \<open>Claim C2 on the two stones, after the collision pass and after the tick.\<close>

theorem C2_witness:
  "list_all wf_item (items twoStones)
   \<and> tick_state twoStones [fastHit, smallHit]
   \<and> list_all unused_ok [fastHit, smallHit]
   \<and> tick twoStones = Some (True, \<lparr>items = [fastHit', smallMoved], lastFinished = True\<rparr>)
   \<and> list_all unused_ok [fastHit', smallMoved]"
  using C2_unused_in_range[OF two_stones_wf] two_stones_wf two_stones_state two_stones_tick
  by auto

section \<open>A tick of a world at rest\<close>

lemma sweepItems_at_rest:
  "list_all (\<lambda>it. speed it = 0) w \<Longrightarrow> \<forall>i \<in> set is. i < length w \<Longrightarrow>
   sweepItems w is = Some (False, w)"
  by (induction "is") (simp_all add: list_all_length)

lemma collisionStep_at_rest:
  "list_all (\<lambda>it. speed it = 0) w \<Longrightarrow> collisionStep w = Some (False, w)"
  unfolding collisionStep_def by (rule sweepItems_at_rest) simp_all

lemma collisionLoop_at_rest:
  "list_all (\<lambda>it. speed it = 0) w \<Longrightarrow> collisionLoop w n = Some (False, 1, w)"
  by (simp add: collisionLoop.simps[of w n] collisionStep_at_rest)

lemma applyPhysicsItems_at_rest:
  "list_all (\<lambda>it. speed it = 0) w \<Longrightarrow> applyPhysicsItems w = Some (False, w)"
  by (induction w) (simp_all add: applyPhysicsItem_def)

lemma resetItems_fields:
  "map pos_x (resetItems w) = map pos_x w"
  "map pos_y (resetItems w) = map pos_y w"
  "map course (resetItems w) = map course w"
  "map speed (resetItems w) = map speed w"
  by (simp_all add: resetItems_def)

text \<open>
  Claim C6. When every item has speed \<open>0\<close>, \<^verbatim>\<open>tick()\<close> returns \<^verbatim>\<open>false\<close>, and the
  only change to the items is the reset of \<^verbatim>\<open>unused\<close>: positions and courses are
  unchanged.
\<close>

theorem C6_tick_at_rest:
  assumes "list_all (\<lambda>it. speed it = 0) (items W)"
  shows "tick W = Some (False, W\<lparr>items := resetItems (items W), lastFinished := True\<rparr>)
       \<and> map pos_x (resetItems (items W)) = map pos_x (items W)
       \<and> map pos_y (resetItems (items W)) = map pos_y (items W)
       \<and> map course (resetItems (items W)) = map course (items W)"
proof -
  have r: "list_all (\<lambda>it. speed it = 0) (resetItems (items W))"
    using assms by (simp add: resetItems_def list_all_iff)
  have "tick W = Some (False, W\<lparr>items := resetItems (items W), lastFinished := True\<rparr>)"
    by (simp add: tick_def stepCollisions_def collisionLoop_at_rest[OF r] applyPhysics_def
        applyPhysicsItems_at_rest[OF r])
  then show ?thesis by (simp add: resetItems_fields)
qed

text \<open>Claim C6 on two new stones.\<close>

theorem C6_witness:
  "list_all (\<lambda>it. speed it = 0) (items restWorld)
   \<and> tick restWorld =
       Some (False, \<lparr>items = [(newItem 0 0 5 1)\<lparr>unused := 1\<rparr>, (newItem 15 0 5 1)\<lparr>unused := 1\<rparr>],
                     lastFinished = True\<rparr>)"
  using C6_tick_at_rest[of restWorld]
  by (simp add: restWorld_def newItem_def resetItems_def)

section \<open>The bounds of the two loops\<close>

lemma collisionLoop_passes:
  "collisionLoop w n = Some (stepped, passes, w') \<Longrightarrow> 1 \<le> passes \<and> passes \<le> max 1 (10 - n)"
proof (induction w n arbitrary: stepped passes w' rule: collisionLoop.induct)
  case (1 w loopBreaker)
  from "1.prems" obtain thisTime w1 where
    c: "collisionStep w = Some (thisTime, w1)"
    unfolding collisionLoop.simps[of w loopBreaker] by (auto split: Option.bind_splits)
  have ns: "\<not> (stepCollisions \<and> thisTime)" by (simp add: stepCollisions_def)
  show ?case
  proof (cases "thisTime \<and> Suc loopBreaker < 10")
    case True
    with "1.prems" c obtain s p where
      r: "collisionLoop w1 (Suc loopBreaker) = Some (s, p, w')" and p: "passes = Suc p"
      unfolding collisionLoop.simps[of w loopBreaker]
      by (auto simp: stepCollisions_def split: Option.bind_splits)
    from "1.IH"[OF c refl ns True r] have "1 \<le> p \<and> p \<le> max 1 (10 - Suc loopBreaker)" .
    with True p show ?thesis by auto
  next
    case False
    with "1.prems" c have "passes = 1"
      unfolding collisionLoop.simps[of w loopBreaker]
      by (auto simp: stepCollisions_def split: Option.bind_splits if_splits)
    then show ?thesis by simp
  qed
qed

lemma updateIfColliding_calls:
  "updateIfColliding w item1 item2 n = Some (hit, calls, w') \<Longrightarrow>
   1 \<le> calls \<and> calls \<le> max 1 (21 - (if n = 0 then 1 else n))"
proof (induction w item1 item2 n arbitrary: hit calls w' rule: updateIfColliding.induct)
  case (1 w item1 item2 attempt0)
  define attempt where "attempt = (if attempt0 = 0 then 1 else attempt0)"
  define A where "A = (if speed (w ! item1) \<ge> speed (w ! item2) then item1 else item2)"
  define B where "B = (if A = item1 then item2 else item1)"
  from "1.prems" obtain d w1 where
    g: "getDistanceToIntersection w A B = Some (d, w1)"
    unfolding updateIfColliding.simps[of w item1 item2 attempt0] Let_def A_def B_def
    by (auto split: Option.bind_splits)
  define item where "item = getClosestItemAfterMove w1 A B d"
  have eq: "updateIfColliding w item1 item2 attempt0 =
     (if d > 0 then
        (if item \<noteq> B \<and> attempt < 20 then
           Option.bind (updateIfColliding w1 A item (attempt + 1))
             (\<lambda>(hit, calls, w2). Some (True, Suc calls, w2))
         else Option.bind (updateForCollision w1 A B d) (\<lambda>w2. Some (True, 1, w2)))
      else Some (False, 1, w1))"
    unfolding updateIfColliding.simps[of w item1 item2 attempt0] Let_def
    using g unfolding A_def B_def item_def attempt_def by simp
  show ?case
  proof (cases "d > 0 \<and> item \<noteq> B \<and> attempt < 20")
    case True
    with eq "1.prems" obtain hit2 calls2 where
      r: "updateIfColliding w1 A item (attempt + 1) = Some (hit2, calls2, w')" and
      c: "calls = Suc calls2"
      by (auto split: Option.bind_splits)
    from True have d: "0 < d" and rec: "item \<noteq> B \<and> attempt < 20" by simp_all
    from "1.IH"[OF attempt_def A_def B_def g refl d item_def rec r]
    have "1 \<le> calls2 \<and> calls2 \<le> max 1 (21 - (attempt + 1))" by simp
    with True c show ?thesis unfolding attempt_def[symmetric] by auto
  next
    case False
    with eq "1.prems" have "calls = 1"
      by (auto split: Option.bind_splits if_splits)
    then show ?thesis by simp
  qed
qed

lemma updateIfColliding_last_attempt:
  "updateIfColliding w item1 item2 20 =
     (let A = (if speed (w ! item1) \<ge> speed (w ! item2) then item1 else item2);
          B = (if A = item1 then item2 else item1)
      in Option.bind (getDistanceToIntersection w A B)
           (\<lambda>(d, w1). if d > 0
                       then Option.bind (updateForCollision w1 A B d) (\<lambda>w2. Some (True, 1, w2))
                       else Some (False, 1, w1)))"
  by (simp add: updateIfColliding.simps[of w item1 item2 20] Let_def cong: if_cong)

section \<open>The order of the collision tests\<close>

lemma distanceBetween_self: "distanceBetween a a = 0"
  by (simp add: distanceBetween_def abcSquare_def)

lemma distanceBetween_nonneg: "0 \<le> distanceBetween a b"
  by (simp add: distanceBetween_def abcSquare_def)

lemma orderByDistance_sorted:
  "sorted (map (\<lambda>i. distanceBetween (w ! source) (w ! i)) (orderByDistance w arr source))"
  by (simp add: orderByDistance_def)

lemma orderByDistance_mset: "mset (orderByDistance w arr source) = mset arr"
  by (simp add: orderByDistance_def)

lemma sorted_tl: "sorted xs \<Longrightarrow> sorted (tl xs)"
  by (cases xs) simp_all

lemma orderByDistance_hd:
  assumes s: "source < length w"
      and pos: "\<forall>i < length w. i \<noteq> source \<longrightarrow> 0 < distanceBetween (w ! source) (w ! i)"
  shows "hd (orderByDistance w [0..<length w] source) = source"
proof -
  let ?f = "\<lambda>i. distanceBetween (w ! source) (w ! i)"
  let ?ys = "orderByDistance w [0..<length w] source"
  have set: "set ?ys = {0..<length w}" by (simp add: orderByDistance_def)
  from s set have src: "source \<in> set ?ys" by simp
  then obtain y ys where ys: "?ys = y # ys" by (cases ?ys) auto
  have "sorted (map ?f ?ys)" by (rule orderByDistance_sorted)
  then have le: "\<forall>z \<in> set ?ys. ?f y \<le> ?f z" unfolding ys by auto
  from src le have "?f y \<le> ?f source" by blast
  then have fy: "?f y \<le> 0" by (simp add: distanceBetween_self)
  have "y \<in> set ?ys" unfolding ys by simp
  with set have "y < length w" by simp
  with pos fy have "y = source" by force
  then show ?thesis by (simp add: ys)
qed

lemma orderByDistance_tl_mset:
  assumes s: "source < length w"
      and pos: "\<forall>i < length w. i \<noteq> source \<longrightarrow> 0 < distanceBetween (w ! source) (w ! i)"
  shows "mset (tl (orderByDistance w [0..<length w] source)) =
         mset (filter (\<lambda>i. i \<noteq> source) [0..<length w])"
proof -
  let ?ys = "orderByDistance w [0..<length w] source"
  have hd: "hd ?ys = source" by (rule orderByDistance_hd[OF s pos])
  have "set ?ys = {0..<length w}" by (simp add: orderByDistance_def)
  with s have "source \<in> set ?ys" by simp
  then have ne: "?ys \<noteq> []" by (cases ?ys) auto
  have "mset (tl ?ys) = mset ?ys - {#hd ?ys#}" using ne by (cases ?ys) simp_all
  also have "\<dots> = mset [0..<length w] - {#source#}"
    by (simp add: hd orderByDistance_mset)
  also have "\<dots> = mset (filter (\<lambda>i. i \<noteq> source) [0..<length w])"
  proof -
    have "mset [0..<length w] - {#source#} = mset (remove1 source [0..<length w])"
      by (simp only: mset_remove1)
    also have "remove1 source [0..<length w] = removeAll source [0..<length w]"
      by (rule distinct_remove1_removeAll) simp
    also have "\<dots> = filter (\<lambda>i. i \<noteq> source) [0..<length w]"
      unfolding removeAll_filter_not_eq by (rule filter_cong) auto
    finally show ?thesis .
  qed
  finally show ?thesis .
qed

text \<open>
  For a moving item \<open>source\<close> whose centre coincides with no other centre, a pass
  tests \<open>source\<close> against \<^verbatim>\<open>ordered[1]\<close>, \<^verbatim>\<open>ordered[2]\<close>, ..., which are exactly the other
  items, in ascending order of their distance to \<open>source\<close>; the first confirmed
  collision ends the tests. When the other items are at the distances 5, 10 and 15, in
  whatever order they are registered, the tests are made in the order 5, 10, 15.
\<close>

lemma testing_order_apart:
  assumes "source < length w"
      and "\<forall>i < length w. i \<noteq> source \<longrightarrow> 0 < distanceBetween (w ! source) (w ! i)"
  shows "(speed (w ! source) \<noteq> 0 \<and> unused (w ! source) \<noteq> 0 \<longrightarrow>
            sweepItems w (source # rest) =
              Option.bind (testOrdered w source (tl (orderByDistance w [0..<length w] source)))
                (\<lambda>(hit, w1). if hit then Some (True, w1) else sweepItems w1 rest))
       \<and> mset (tl (orderByDistance w [0..<length w] source)) =
           mset (filter (\<lambda>i. i \<noteq> source) [0..<length w])
       \<and> sorted (map (\<lambda>i. distanceBetween (w ! source) (w ! i))
                   (tl (orderByDistance w [0..<length w] source)))
       \<and> (\<forall>c cs calls w1. updateIfColliding w source c 0 = Some (True, calls, w1) \<longrightarrow>
             testOrdered w source (c # cs) = Some (True, w1))
       \<and> (mset (map (\<lambda>i. distanceBetween (w ! source) (w ! i))
                  (filter (\<lambda>i. i \<noteq> source) [0..<length w])) = {#5, 10, 15#} \<longrightarrow>
            map (\<lambda>i. distanceBetween (w ! source) (w ! i))
              (tl (orderByDistance w [0..<length w] source)) = [5, 10, 15])"
proof -
  let ?f = "\<lambda>i. distanceBetween (w ! source) (w ! i)"
  let ?tested = "tl (orderByDistance w [0..<length w] source)"
  have 1: "speed (w ! source) \<noteq> 0 \<and> unused (w ! source) \<noteq> 0 \<Longrightarrow>
            sweepItems w (source # rest) =
              Option.bind (testOrdered w source ?tested)
                (\<lambda>(hit, w1). if hit then Some (True, w1) else sweepItems w1 rest)"
    by (simp add: Let_def)
  have 2: "mset ?tested = mset (filter (\<lambda>i. i \<noteq> source) [0..<length w])"
    by (rule orderByDistance_tl_mset[OF assms])
  have 3: "sorted (map ?f ?tested)"
    using sorted_tl[OF orderByDistance_sorted[of w source "[0..<length w]"]]
    by (simp add: map_tl)
  have 4: "testOrdered w source (c # cs) = Some (True, w1)"
    if "updateIfColliding w source c 0 = Some (True, calls, w1)" for c cs calls w1
    using that by simp
  have 5: "map ?f ?tested = [5, 10, 15]"
    if m: "mset (map ?f (filter (\<lambda>i. i \<noteq> source) [0..<length w])) = {#5, 10, 15#}"
  proof -
    have "mset (map ?f ?tested) = mset [5, 10, 15 :: real]"
      using 2 m by (metis mset_map mset.simps(1) mset.simps(2) add_mset_commute)
    from properties_for_sort[OF this 3] show ?thesis by simp
  qed
  from 1 2 3 4 5 show ?thesis by blast
qed

text \<open>The order of the tests on the four stones.\<close>

lemma upt_4: "[0..<4] = [0, Suc 0, 2, 3]"
  by (simp add: upt_rec)

lemma four_stones_order:
  "orderByDistance fourStones [0, Suc 0, 2, 3] (Suc 0) = [Suc 0, 2, 3, 0]"
  by (simp add: orderByDistance_def fourStones_def distanceBetween_def abcSquare_axis newItem_def)

lemma four_stones_testing_order:
  "orderByDistance fourStones [0..<length fourStones] 1 = [1, 2, 3, 0]
   \<and> map (\<lambda>i. distanceBetween (fourStones ! 1) (fourStones ! i)) [2, 3, 0] = [5, 10, 15]
   \<and> sorted (map (\<lambda>i. distanceBetween (fourStones ! 1) (fourStones ! i)) [2, 3, 0])"
proof -
  have len: "length fourStones = 4" by (simp add: fourStones_def)
  have o: "orderByDistance fourStones [0..<length fourStones] 1 = [1, 2, 3, 0]"
    using four_stones_order by (simp add: len upt_4)
  have d: "map (\<lambda>i. distanceBetween (fourStones ! 1) (fourStones ! i)) [2, 3, 0] = [5, 10, 15]"
    by (simp add: fourStones_def distanceBetween_def abcSquare_axis newItem_def)
  have p: "\<forall>i < length fourStones. i \<noteq> 1 \<longrightarrow> 0 < distanceBetween (fourStones ! 1) (fourStones ! i)"
    by (simp add: len fourStones_def distanceBetween_def abcSquare_axis newItem_def
        less_Suc_eq numeral_eq_Suc)
  from testing_order_apart[of 1 fourStones, OF _ p] o d len show ?thesis by simp
qed

section \<open>A shot without curve\<close>

lemma realY_no_curve: "shotCurve it = Curve 0 \<Longrightarrow> realY it x = 0"
  by (simp add: realY_def curveY_def curveNumber_def)

lemma computeNextCurvePos_no_curve:
  assumes "shotCurve it = Curve 0" and "computeNextCurvePos it = Some p"
  shows "p = (shotOriginX it + cos (shotCourse it) * \<bar>shotTraveled it + speed it\<bar>,
              shotOriginY it + sin (shotCourse it) * \<bar>shotTraveled it + speed it\<bar>)"
proof -
  from assms(2) obtain x q where
    x: "getShotProgressToPi it = Some x" and q: "jsdiv (curveY it x) x = Some q" and
    p: "p = (shotOriginX it + cos (shotCourse it - arctan q)
               * abcSquare (shotTraveled it + speed it) (realY it x),
             shotOriginY it + sin (shotCourse it - arctan q)
               * abcSquare (shotTraveled it + speed it) (realY it x))"
    unfolding computeNextCurvePos_def Let_def by (auto split: Option.bind_splits)
  have y: "curveY it x = 0" using assms(1) by (simp add: curveY_def curveNumber_def)
  from q have "q = 0" unfolding y jsdiv_def by (simp split: if_splits)
  then show ?thesis
    unfolding p realY_no_curve[OF assms(1)] by (simp add: abcSquare_axis)
qed

lemma computeNextCurvePos_defined:
  assumes "shotDistance it \<noteq> 0" and "shotTraveled it + speed it \<noteq> 0"
  shows "computeNextCurvePos it \<noteq> None"
  using assms by (simp add: computeNextCurvePos_def getShotProgressToPi_def jsdiv_def Let_def)

text \<open>
  With \<^verbatim>\<open>shotCurve = 0\<close> the lateral offset \<^verbatim>\<open>realY\<close> is \<open>0\<close> at every progress \<open>x\<close>, and
  every position that \<^verbatim>\<open>getNextCurvePos\<close> computes lies on the straight line from the
  origin of the shot along \<^verbatim>\<open>shotCourse\<close>, at the distance \<open>\<bar>shotTraveled + speed\<bar>\<close>; it
  computes one whenever \<^verbatim>\<open>shotDistance\<close> and \<^verbatim>\<open>shotTraveled + speed\<close> are not \<open>0\<close>.
\<close>

lemma no_curve_computed_straight:
  assumes "shotCurve it = Curve 0"
  shows "(\<forall>x. realY it x = 0)
       \<and> (\<forall>p it'. nextCurvePos (cache it) = None \<and> getNextCurvePos it = Some (p, it') \<longrightarrow>
             p = (shotOriginX it + cos (shotCourse it) * \<bar>shotTraveled it + speed it\<bar>,
                  shotOriginY it + sin (shotCourse it) * \<bar>shotTraveled it + speed it\<bar>))
       \<and> (nextCurvePos (cache it) = None \<and> shotDistance it \<noteq> 0
             \<and> shotTraveled it + speed it \<noteq> 0 \<longrightarrow> getNextCurvePos it \<noteq> None)"
proof -
  have 1: "realY it x = 0" for x by (rule realY_no_curve[OF assms])
  have 2: "p = (shotOriginX it + cos (shotCourse it) * \<bar>shotTraveled it + speed it\<bar>,
                shotOriginY it + sin (shotCourse it) * \<bar>shotTraveled it + speed it\<bar>)"
    if "nextCurvePos (cache it) = None" and "getNextCurvePos it = Some (p, it')" for p it'
  proof -
    from that have "computeNextCurvePos it = Some p"
      by (auto simp: getNextCurvePos_def split: Option.bind_splits)
    with assms show ?thesis by (rule computeNextCurvePos_no_curve)
  qed
  have 3: "getNextCurvePos it \<noteq> None"
    if "nextCurvePos (cache it) = None" "shotDistance it \<noteq> 0" "shotTraveled it + speed it \<noteq> 0"
    using computeNextCurvePos_defined[OF that(2,3)] that(1)
    by (auto simp: getNextCurvePos_def split: Option.bind_splits)
  from 1 2 3 show ?thesis by blast
qed

text \<open>On the shot without curve the next position is 30 along the course.\<close>

lemma straight_shot_next:
  "shotCurve straightShot = Curve 0
   \<and> realY straightShot (pi / 2) = 0
   \<and> getNextCurvePos straightShot =
       Some ((30, 0), straightShot\<lparr>cache := emptyCache\<lparr>nextCurvePos := Some (30, 0)\<rparr>\<rparr>)"
proof -
  have c: "shotCurve straightShot = Curve 0" by (simp add: straightShot_def)
  have x: "getShotProgressToPi straightShot = Some (3 / 10 * pi)"
    by (simp add: getShotProgressToPi_def jsdiv_def straightShot_def newItem_def)
  have f: "shotTraveled straightShot = 20" "speed straightShot = 10" "shotCourse straightShot = 0"
    "shotOriginX straightShot = 0" "shotOriginY straightShot = 0" "shotDistance straightShot = 100"
    by (simp_all add: straightShot_def newItem_def)
  have "computeNextCurvePos straightShot = Some (30, 0)"
    unfolding computeNextCurvePos_def x
    by (simp add: jsdiv_def curveY_def realY_def curveNumber_def abcSquare_axis c f)
  then have g: "getNextCurvePos straightShot =
       Some ((30, 0), straightShot\<lparr>cache := emptyCache\<lparr>nextCurvePos := Some (30, 0)\<rparr>\<rparr>)"
    by (simp add: getNextCurvePos_def straightShot_def newItem_def emptyCache_def)
  from no_curve_computed_straight[OF c] c g show ?thesis by simp
qed

section \<open>The transfer of speed\<close>

text \<open>
  \<^verbatim>\<open>updateForCollision\<close> sets the speeds by the formula of the specification, with
  \<^verbatim>\<open>relAngle\<close> taken against \<^verbatim>\<open>abCourse\<close>. That bearing is computed between the positions
  \<^verbatim>\<open>pos\<close> of the two items, their top left corners; it is the bearing of the line of
  centres when the radii are equal.
\<close>

lemma abCourse_equal_radii:
  "radius (w ! A) = radius (w ! B) \<Longrightarrow> abCourse w A B = centreCourse w A B"
  by (simp add: abCourse_def centreCourse_def getCourse_def)

lemma deflect_speeds:
  assumes A: "A < length w" and B: "B < length w" and ne: "A \<noteq> B"
      and d: "deflect w A B = Some w'"
  shows "speed (w' ! A) = speed (w ! A) * \<bar>relAngle w A B\<bar>
       \<and> speed (w' ! B) = (speed (w ! A) * power' (w ! A) / power' (w ! B)) * (1 - \<bar>relAngle w A B\<bar>)"
proof -
  define ab where "ab = abCourse w A B"
  define rel where "rel = relAngle w A B"
  define w1 where "w1 = w[A := (w ! A)\<lparr>course := (if rel > 0 then ab - (pi / 2) else ab - (pi / 2) - pi)\<rparr>]"
  define w2 where "w2 = w1[B := (w1 ! B)\<lparr>course := ab\<rparr>]"
  define F where "F = speed (w2 ! A) * power' (w2 ! A) / power' (w2 ! B)"
  define w3 where "w3 = w2[A := (w2 ! A)\<lparr>speed := speed (w2 ! A) * \<bar>rel\<bar>\<rparr>]"
  have a2: "speed (w2 ! A) = speed (w ! A)" "power' (w2 ! A) = power' (w ! A)"
    using A B ne by (simp_all add: w2_def w1_def)
  have b2: "power' (w2 ! B) = power' (w ! B)"
    using A B ne by (simp add: w2_def w1_def)
  from d have w': "w' = w3[B := (w3 ! B)\<lparr>speed := F * (1 - \<bar>rel\<bar>)\<rparr>]"
    unfolding deflect_def Let_def w3_def F_def w2_def w1_def rel_def ab_def jsdiv_def
    by (auto split: Option.bind_splits if_splits)
  have "speed (w' ! A) = speed (w ! A) * \<bar>rel\<bar>"
    using A B ne a2 by (simp add: w' w3_def w2_def w1_def)
  moreover have "speed (w' ! B) = F * (1 - \<bar>rel\<bar>)"
    using A B ne by (simp add: w' w3_def w2_def w1_def)
  ultimately show ?thesis unfolding F_def a2 b2 rel_def by simp
qed

lemma sqrt_25_16: "sqrt (25 / 16) = 5 / 4"
  by (rule real_sqrt_unique) (simp_all add: power2_eq_square)

lemma sin_arctan_3_4: "sin (arctan (3 / 4)) = 3 / 5"
proof -
  have e: "1 + (3 / 4 :: real)\<^sup>2 = 25 / 16" by (simp add: power2_eq_square)
  show ?thesis unfolding sin_arctan e sqrt_25_16 by simp
qed

lemma cos_shift: "cos (x + pi / 2) = - sin x"
  by (simp add: cos_add)

lemma angle_3_4: "angleBetween 0 (arctan (- (3 / 4))) = - (3 / 5)"
proof -
  have "angleBetween 0 (arctan (- (3 / 4))) = cos (arctan (3 / 4) + pi / 2)"
    by (simp add: angleBetween_def arctan_minus)
  then show ?thesis by (simp only: cos_shift sin_arctan_3_4)
qed

lemma sqrt_19600: "sqrt 19600 = 140"
  by (rule real_sqrt_unique) simp_all

lemma light_heavy_step:
  "getStepDistance lightStone = Some (10, lightStone')"
  "getStepDistance heavyStone = Some (0, heavyStone')"
  "getStepDistance lightStone' = Some (10, lightStone')"
  "getStepDistance heavyStone' = Some (0, heavyStone')"
  by (simp_all add: getStepDistance_def lightStone_def heavyStone_def lightStone'_def
      heavyStone'_def newItem_def emptyCache_def truthy_def)

lemma light_heavy_quadratic:
  "discriminant lightStone heavyStone 10 0 = 19600"
  "root1 lightStone heavyStone 10 0 = 19 / 10"
  "root2 lightStone heavyStone 10 0 = 1 / 2"
proof -
  have a: "sweep_a lightStone heavyStone 10 0 = 100"
    by (simp add: sweep_a_def sweep_dx_def sweep_dy_def lightStone_def heavyStone_def newItem_def)
  have b: "sweep_b lightStone heavyStone 10 0 = - 240"
    by (simp add: sweep_b_def sweep_dx_def sweep_dy_def sweep_fx_def sweep_fy_def
        lightStone_def heavyStone_def newItem_def)
  have c: "sweep_c lightStone heavyStone = 95"
    by (simp add: sweep_c_def sweep_fx_def sweep_fy_def lightStone_def heavyStone_def newItem_def)
  show d: "discriminant lightStone heavyStone 10 0 = 19600"
    by (simp add: discriminant_def a b c)
  show "root1 lightStone heavyStone 10 0 = 19 / 10"
    by (simp add: root1_def d a b sqrt_19600)
  show "root2 lightStone heavyStone 10 0 = 1 / 2"
    by (simp add: root2_def d a b sqrt_19600)
qed

lemma light_heavy_sweep: "sweepDistance lightStone heavyStone 10 0 = Some 5"
  by (simp add: sweepDistance_pos_disc light_heavy_quadratic)

lemma heavy_light_sweep': "sweepDistance heavyStone' lightStone' 0 10 = Some 0"
  unfolding lightStone'_def heavyStone'_def sweepDistance_cache
  using sweepDistance_swap[of lightStone heavyStone 10 0 5] light_heavy_sweep
  by (simp add: light_heavy_quadratic)

lemma light_heavy_contact:
  "getDistanceToIntersection [lightStone, heavyStone] 0 (Suc 0) = Some (5, [lightStone', heavyStone'])"
  using getDistanceToIntersection_eq[of 0 "[lightStone, heavyStone]" 1 10 lightStone' 0 heavyStone']
  by (simp add: light_heavy_step light_heavy_sweep)

lemma heavy_light_contact':
  "getDistanceToIntersection [lightStone', heavyStone'] (Suc 0) 0 = Some (0, [lightStone', heavyStone'])"
  using getDistanceToIntersection_eq[of 1 "[lightStone', heavyStone']" 0 0 heavyStone' 10 lightStone']
  by (simp add: light_heavy_step heavy_light_sweep')

lemma sqrt_49: "sqrt 49 = 7"
  by (rule real_sqrt_unique) simp_all

lemma light_heavy_move:
  "moveToContact [lightStone', heavyStone'] 0 (Suc 0) 5 0 =
     [lightStone\<lparr>pos_x := 5\<rparr>, heavyStone]"
  by (simp add: moveToContact_def Let_def setPos_def distanceBetween_def abcSquare_axis
      lightStone'_def heavyStone'_def lightStone_def heavyStone_def newItem_def)

lemma light_heavy_consume:
  "consumeUnused [lightStone\<lparr>pos_x := 5\<rparr>, heavyStone] 0 (Suc 0) 5 10 0 0 =
     Some [lightStone\<lparr>pos_x := 5, unused := 1 / 2\<rparr>, heavyStone]"
  by (simp add: consumeUnused_def jsdiv_def Let_def lightStone_def newItem_def)

lemma light_heavy_abCourse:
  "abCourse [lightStone\<lparr>pos_x := 5, unused := 1 / 2\<rparr>, heavyStone] 0 (Suc 0) = arctan (- (3 / 4))"
  by (simp add: abCourse_def getCourse_def atan2_def lightStone_def heavyStone_def newItem_def)

lemma light_heavy_relAngle:
  "relAngle [lightStone\<lparr>pos_x := 5, unused := 1 / 2\<rparr>, heavyStone] 0 (Suc 0) = - (3 / 5)"
  unfolding relAngle_def light_heavy_abCourse
  using angle_3_4 by (simp add: lightStone_def newItem_def)

lemma light_heavy_deflect:
  "deflect [lightStone\<lparr>pos_x := 5, unused := 1 / 2\<rparr>, heavyStone] 0 (Suc 0) =
     Some [lightHit, heavyHit]"
  unfolding deflect_def light_heavy_abCourse light_heavy_relAngle
  by (simp add: Let_def jsdiv_def lightHit_def heavyHit_def lightStone_def heavyStone_def newItem_def)

lemma light_heavy_update:
  "updateForCollision [lightStone', heavyStone'] 0 (Suc 0) 5 = Some [lightHit, heavyHit]"
  by (simp add: updateForCollision_def light_heavy_step heavy_light_contact' light_heavy_move
      light_heavy_consume light_heavy_deflect)

lemma light_heavy_closest:
  "getClosestItemAfterMove [lightStone', heavyStone'] 0 (Suc 0) 5 = Suc 0"
  by (simp add: getClosestItemAfterMove_def Let_def upt_rec)

lemma light_heavy_collide:
  "updateIfColliding [lightStone, heavyStone] 0 (Suc 0) 0 = Some (True, 1, [lightHit, heavyHit])"
  by (simp add: updateIfColliding.simps[of "[lightStone, heavyStone]"] Let_def
      light_heavy_contact light_heavy_closest light_heavy_update)
    (simp add: lightStone_def heavyStone_def newItem_def)

lemma light_heavy_centre:
  "centreCourse [lightHit, heavyHit] 0 (Suc 0) = 0"
  "angleBetween (course lightStone) 0 = 0"
  by (simp_all add: centreCourse_def getCourse_def atan2_def angleBetween_def lightHit_def
      heavyHit_def lightStone_def heavyStone_def newItem_def)

text \<open>
  Claim C4 says that \<^verbatim>\<open>relAngle\<close> is taken against the bearing of the line of centres.
  For the stones of radius 2 and 5 the code takes \<^verbatim>\<open>abCourse = atan2(-3, 4)\<close> between the
  corners, so \<^verbatim>\<open>relAngle = -3/5\<close> and the speeds after the collision are 6 and 4. The
  line of centres has bearing \<open>0\<close>, for which the formula of the claim gives the speeds
  0 and 10.
\<close>

theorem C4_unequal_radii:
  "updateIfColliding [lightStone, heavyStone] 0 1 0 = Some (True, 1, [lightHit, heavyHit])
   \<and> speed lightHit = 6 \<and> speed heavyHit = 4
   \<and> distanceBetween lightHit heavyHit = radius lightHit + radius heavyHit
   \<and> speed lightStone * \<bar>angleBetween (course lightStone) (centreCourse [lightHit, heavyHit] 0 1)\<bar> = 0
   \<and> (speed lightStone * power' lightStone / power' heavyStone)
       * (1 - \<bar>angleBetween (course lightStone) (centreCourse [lightHit, heavyHit] 0 1)\<bar>) = 10"
  using light_heavy_collide light_heavy_centre
  by (simp add: lightHit_def heavyHit_def lightStone_def heavyStone_def newItem_def
      distanceBetween_def abcSquare_axis)

text \<open>
  The speed of the lighter stone after the collision is not the one the formula of
  Claim C4 gives for the bearing of the line of centres.
\<close>

theorem C4_witness:
  "speed lightHit \<noteq>
     speed lightStone * \<bar>angleBetween (course lightStone) (centreCourse [lightHit, heavyHit] 0 1)\<bar>"
proof -
  from C4_unequal_radii have a: "speed lightHit = 6"
    and b: "speed lightStone
              * \<bar>angleBetween (course lightStone) (centreCourse [lightHit, heavyHit] 0 1)\<bar> = 0"
    by blast+
  show ?thesis unfolding a b by simp
qed

section \<open>Two stones that touch\<close>

lemma sqrt_6400: "sqrt 6400 = 80"
  by (rule real_sqrt_unique) simp_all

lemma touching_step:
  "getStepDistance slowStone = Some (4, slowStone')"
  "getStepDistance nearStone = Some (0, nearStone')"
  by (simp_all add: getStepDistance_def slowStone_def nearStone_def slowStone'_def
      nearStone'_def newItem_def emptyCache_def truthy_def)

lemma touching_quadratic:
  "discriminant slowStone nearStone 4 0 = 6400"
  "root1 slowStone nearStone 4 0 = 5"
  "root2 slowStone nearStone 4 0 = 0"
proof -
  have a: "sweep_a slowStone nearStone 4 0 = 16"
    by (simp add: sweep_a_def sweep_dx_def sweep_dy_def slowStone_def nearStone_def newItem_def)
  have b: "sweep_b slowStone nearStone 4 0 = - 80"
    by (simp add: sweep_b_def sweep_dx_def sweep_dy_def sweep_fx_def sweep_fy_def
        slowStone_def nearStone_def newItem_def)
  have c: "sweep_c slowStone nearStone = 0"
    by (simp add: sweep_c_def sweep_fx_def sweep_fy_def slowStone_def nearStone_def newItem_def)
  show d: "discriminant slowStone nearStone 4 0 = 6400"
    by (simp add: discriminant_def a b c)
  show "root1 slowStone nearStone 4 0 = 5"
    by (simp add: root1_def d a b sqrt_6400)
  show "root2 slowStone nearStone 4 0 = 0"
    by (simp add: root2_def d a b sqrt_6400)
qed

lemma touching_sweep: "sweepDistance slowStone nearStone 4 0 = Some 0"
  by (simp add: sweepDistance_pos_disc touching_quadratic)

lemma touching_contact:
  "getDistanceToIntersection [slowStone, nearStone] 0 (Suc 0) = Some (0, [slowStone', nearStone'])"
  using getDistanceToIntersection_eq[of 0 "[slowStone, nearStone]" 1 4 slowStone' 0 nearStone']
  by (simp add: touching_step touching_sweep)

lemma touching_fields:
  "speed slowStone = 4" "speed nearStone = 0" "unused slowStone = 1" "unused nearStone = 1"
  "speed slowStone' = 4" "speed nearStone' = 0" "unused slowStone' = 1"
  by (simp_all add: slowStone_def nearStone_def slowStone'_def nearStone'_def newItem_def)

lemma touching_collide:
  "updateIfColliding [slowStone, nearStone] 0 (Suc 0) 0 = Some (False, 1, [slowStone', nearStone'])"
  by (simp add: updateIfColliding.simps[of "[slowStone, nearStone]"] Let_def touching_fields
      touching_contact)

lemma touching_order:
  "orderByDistance [slowStone, nearStone] [0, Suc 0] 0 = [0, Suc 0]"
  by (simp add: orderByDistance_def distanceBetween_def abcSquare_axis
      slowStone_def nearStone_def newItem_def)

lemma touching_pass:
  "collisionStep [slowStone, nearStone] = Some (False, [slowStone', nearStone'])"
  by (simp add: collisionStep_def upt_2 touching_fields touching_order touching_collide)

lemma touching_loop:
  "collisionLoop [slowStone, nearStone] 0 = Some (False, 1, [slowStone', nearStone'])"
  by (simp add: collisionLoop.simps[of _ 0] touching_pass stepCollisions_def)

lemma touching_physics:
  "applyPhysics [slowStone', nearStone'] = Some (True, [slowMoved, nearStone'])"
  by (simp add: applyPhysics_def applyPhysicsItem_def Let_def setPos_def stopSpeed_def
      slowStone'_def nearStone'_def slowMoved_def slowStone_def nearStone_def newItem_def)

lemma touching_reset: "resetItems [slowStone, nearStone] = [slowStone, nearStone]"
  by (simp add: resetItems_def slowStone_def nearStone_def newItem_def)

lemma touching_tick:
  "tick touching = Some (True, \<lparr>items = [slowMoved, nearStone'], lastFinished = True\<rparr>)"
  by (simp add: tick_def touching_def stepCollisions_def touching_reset touching_loop
      touching_physics)

text \<open>
  The two stones that touch do not overlap before the tick. The sweep finds the root
  \<open>0\<close>, the distance \<open>0\<close> is not positive, so no collision is resolved, and the physics
  moves the left stone 4 into the right one: after the tick the centres are 6 apart,
  less than the sum 10 of the radii.
\<close>

lemma touching_overlap:
  "distanceBetween slowStone nearStone = radius slowStone + radius nearStone
   \<and> tick touching = Some (True, \<lparr>items = [slowMoved, nearStone'], lastFinished = True\<rparr>)
   \<and> distanceBetween slowMoved nearStone' = 6
   \<and> radius slowMoved + radius nearStone' = 10"
  using touching_tick
  by (simp add: distanceBetween_def abcSquare_axis slowMoved_def nearStone'_def slowStone_def
      nearStone_def newItem_def)

section \<open>The distance of a shot\<close>

lemma distanceToTravel_zero: "distanceToTravel 0 fr = Some 0"
  by (simp add: distanceToTravel_def)

lemma distanceToTravel_closed:
  assumes fr: "0 < fr" "fr < 1" and spd: "0 < spd"
  shows "distanceToTravel spd fr = Some (closedForm spd fr)"
proof -
  have q: "0 < stopSpeed / spd" using spd by (simp add: stopSpeed_def)
  have lf: "ln fr \<noteq> 0" using fr by simp
  have "fr powr (ln (stopSpeed / spd) / ln fr + 1) = fr powr (ln (stopSpeed / spd) / ln fr) * fr"
    using fr by (simp add: powr_add)
  also have "fr powr (ln (stopSpeed / spd) / ln fr) = exp (ln (stopSpeed / spd))"
    using fr lf by (simp add: powr_def)
  also have "\<dots> = stopSpeed / spd" using q by simp
  finally have p: "fr powr (ln (stopSpeed / spd) / ln fr + 1) = stopSpeed / spd * fr" .
  have "spd * (1 - stopSpeed / spd * fr) = spd - fr * stopSpeed"
    using spd by (simp add: algebra_simps)
  then show ?thesis
    using fr spd q lf
    by (simp add: distanceToTravel_def jsdiv_def jslog_def jspow_def p closedForm_def)
qed

lemma closedForm_step:
  assumes "fr < 1"
  shows "closedForm spd fr = spd + closedForm (spd * fr) fr"
proof -
  have "1 - fr \<noteq> 0" using assms by simp
  then show ?thesis unfolding closedForm_def by (simp add: field_simps)
qed

lemma simulate_bounds:
  assumes fr: "0 < fr" "fr < 1"
  shows "iterativeSimulation n spd fr = Some s \<Longrightarrow> stopSpeed \<le> spd \<Longrightarrow>
         s \<le> closedForm spd fr \<and> closedForm spd fr < s + stopSpeed"
proof (induction n arbitrary: spd s)
  case 0
  then show ?case by simp
next
  case (Suc n)
  from Suc.prems obtain s' where
    s': "iterativeSimulation n (spd * fr) fr = Some s'" and s: "s = spd + s'"
    by (auto split: if_splits)
  have d: "0 < 1 - fr" using fr by simp
  show ?case
  proof (cases "spd * fr < stopSpeed")
    case True
    with s' have "s' = 0" by (cases n) (auto split: if_splits)
    have lo: "0 \<le> closedForm (spd * fr) fr"
      unfolding closedForm_def using d Suc.prems(2) fr
      by (simp add: mult.commute mult_left_mono)
    have "spd * fr - fr * stopSpeed < stopSpeed * (1 - fr)"
      using True by (simp add: algebra_simps)
    then have hi: "closedForm (spd * fr) fr < stopSpeed"
      unfolding closedForm_def using d by (simp add: pos_divide_less_eq)
    show ?thesis
      unfolding closedForm_step[OF fr(2), of spd] s \<open>s' = 0\<close> using lo hi by simp
  next
    case False
    then have "stopSpeed \<le> spd * fr" by simp
    from Suc.IH[OF s' this] show ?thesis
      unfolding closedForm_step[OF fr(2), of spd] s by simp
  qed
qed

lemma simulate_stops:
  "spd * fr ^ k < stopSpeed \<Longrightarrow> iterativeSimulation (Suc k) spd fr \<noteq> None"
proof (induction k arbitrary: spd)
  case 0
  then show ?case by simp
next
  case (Suc k)
  then have "spd * fr * fr ^ k < stopSpeed" by (simp add: mult.assoc)
  from Suc.IH[OF this] show ?case by (auto simp del: iterativeSimulation.simps(2) simp add: iterativeSimulation.simps(2)[of "Suc k"])
qed

lemma simulate_terminates:
  assumes fr: "0 < fr" "fr < 1" and spd: "0 < spd"
  shows "\<exists>n s. iterativeSimulation n spd fr = Some s"
proof -
  have "0 < stopSpeed / spd" using spd by (simp add: stopSpeed_def)
  from real_arch_pow_inv[OF this fr(2)] obtain k where "fr ^ k < stopSpeed / spd" by blast
  then have "spd * fr ^ k < stopSpeed" using spd by (simp add: field_simps)
  from simulate_stops[OF this] obtain s where "iterativeSimulation (Suc k) spd fr = Some s"
    by (cases "iterativeSimulation (Suc k) spd fr") simp_all
  then show ?thesis by blast
qed

lemma simulate_unique:
  "iterativeSimulation n spd fr = Some s \<Longrightarrow> iterativeSimulation m spd fr = Some s' \<Longrightarrow> s = s'"
proof (induction n arbitrary: m spd s s')
  case 0
  then show ?case by simp
next
  case (Suc n)
  from Suc.prems(2) obtain m' where m: "m = Suc m'" by (cases m) auto
  show ?case
  proof (cases "spd < stopSpeed")
    case True
    with Suc.prems m show ?thesis by simp
  next
    case False
    with Suc.prems m obtain t t' where
      "iterativeSimulation n (spd * fr) fr = Some t" "s = spd + t"
      "iterativeSimulation m' (spd * fr) fr = Some t'" "s' = spd + t'"
      by auto
    with Suc.IH show ?thesis by blast
  qed
qed

lemma simulate_one_half: "iterativeSimulation 8 1 (1 / 2) = Some (127 / 64)"
  by (simp add: eval_nat_numeral stopSpeed_def)

text \<open>
  Claim C5, amended. \<^verbatim>\<open>distanceToTravel\<close> answers \<open>0\<close> for the speed \<open>0\<close>. For a
  friction in \<open>(0, 1)\<close> and a positive speed it answers
  \<open>(speed - friction * stopSpeed) / (1 - friction)\<close>. For a speed of at least
  \<^verbatim>\<open>stopSpeed\<close> the iterative simulation ends, and the closed form is at least its sum
  and exceeds it by less than \<^verbatim>\<open>stopSpeed\<close>.
\<close>

theorem C5_distanceToTravel:
  "distanceToTravel 0 fr = Some 0
   \<and> (0 < fr \<and> fr < 1 \<and> 0 < spd \<longrightarrow>
        distanceToTravel spd fr = Some ((spd - fr * stopSpeed) / (1 - fr)))
   \<and> (0 < fr \<and> fr < 1 \<and> stopSpeed \<le> spd \<longrightarrow>
        (\<exists>n s d. iterativeSimulation n spd fr = Some s \<and> distanceToTravel spd fr = Some d
                 \<and> s \<le> d \<and> d < s + stopSpeed))"
proof -
  have 2: "distanceToTravel spd fr = Some ((spd - fr * stopSpeed) / (1 - fr))"
    if "0 < fr" "fr < 1" "0 < spd"
    using distanceToTravel_closed[OF that] by (simp add: closedForm_def)
  have 3: "\<exists>n s d. iterativeSimulation n spd fr = Some s \<and> distanceToTravel spd fr = Some d
                 \<and> s \<le> d \<and> d < s + stopSpeed"
    if fr: "0 < fr" "fr < 1" and spd: "stopSpeed \<le> spd"
  proof -
    have pos: "0 < spd" using spd by (simp add: stopSpeed_def)
    from simulate_terminates[OF fr pos] obtain n s where s: "iterativeSimulation n spd fr = Some s" by blast
    from simulate_bounds[OF fr s spd] distanceToTravel_closed[OF fr pos] s
    show ?thesis by blast
  qed
  from distanceToTravel_zero 2 3 show ?thesis by blast
qed

text \<open>Claim C5, amended, at speed 1 and friction 1/2.\<close>

theorem C5_witness:
  "distanceToTravel 1 (1 / 2) = Some (199 / 100)
   \<and> iterativeSimulation 8 1 (1 / 2) = Some (127 / 64)
   \<and> (127 / 64 :: real) \<le> 199 / 100 \<and> (199 / 100 :: real) < 127 / 64 + stopSpeed"
  using C5_distanceToTravel[of "1 / 2" 1] simulate_one_half
  by (simp add: stopSpeed_def)

text \<open>
  Claim C5 as stated fails at speed 1 and friction 1/2: the closed form is 1.99, the
  simulation sums 1 + 1/2 + ... + 1/64 = 1.984375, and the relative error is above
  \<open>10\<^sup>-\<^sup>6\<close> whichever of the two it is measured against.
\<close>

theorem C5_counterexample:
  "distanceToTravel 1 (1 / 2) = Some (199 / 100)
   \<and> iterativeSimulation 8 1 (1 / 2) = Some (127 / 64)
   \<and> \<not> \<bar>199 / 100 - 127 / 64 :: real\<bar> \<le> 1 / 1000000 * \<bar>127 / 64\<bar>
   \<and> \<not> \<bar>199 / 100 - 127 / 64 :: real\<bar> \<le> 1 / 1000000 * \<bar>199 / 100\<bar>"
proof -
  have "distanceToTravel 1 (1 / 2) = Some (closedForm 1 (1 / 2))"
    by (rule distanceToTravel_closed) simp_all
  then show ?thesis using simulate_one_half by (simp add: closedForm_def stopSpeed_def)
qed

section \<open>The overlap diagnostic, evaluated\<close>

text \<open>
  The division by \<open>2 * a\<close> in the sweep is never a division by zero: where the
  discriminant is positive, so is \<open>a\<close>.
\<close>

lemma sweepDistance_defined: "sweepDistance A B sA sB \<noteq> None"
proof (cases "0 < discriminant A B sA sB")
  case True
  then show ?thesis by (simp add: sweepDistance_pos_disc)
next
  case False
  then show ?thesis by (simp add: sweepDistance_nonpos_disc)
qed

text \<open>
  Called after the tick of the two stones that touch, the diagnostic finds the pair.
  It does not find the small stone inside the large one: the corners are 25 apart, the
  centres less than 21.
\<close>

lemma touching_checked:
  "collisionCheck [slowMoved, nearStone'] =
     [slowMoved\<lparr>course := - (pi / 2) - pi\<rparr>, nearStone']"
  by (simp add: collisionCheck_def upt_2 phased_def nudge_def Let_def abCourse_def relAngle_def
      getCourse_def atan2_def angleBetween_def abcSquare_axis slowMoved_def nearStone'_def
      slowStone_def nearStone_def newItem_def)

lemma tiny_big_overlap:
  "distanceBetween tinyStone bigStone < radius tinyStone + radius bigStone"
proof -
  have "sqrt 397 < sqrt 441" by (simp only: real_sqrt_less_iff)
  also have "sqrt 441 = 21" by (rule real_sqrt_unique) simp_all
  finally show ?thesis
    by (simp add: distanceBetween_def abcSquare_def tinyStone_def bigStone_def newItem_def)
qed

lemma tiny_big_unchecked:
  "collisionCheck [tinyStone, bigStone] = [tinyStone, bigStone]"
  by (simp add: collisionCheck_def upt_2 phased_def abcSquare_axis tinyStone_def bigStone_def
      newItem_def)

section \<open>A lookahead, evaluated\<close>

text \<open>
  Tested against the stone ahead, the fast stone is found to pass the third stone
  first: \<^verbatim>\<open>updateIfColliding\<close> calls itself for the third stone and resolves that
  collision.
\<close>

lemma sqrt_230400: "sqrt 230400 = 480"
  by (rule real_sqrt_unique) simp_all

lemma sqrt_100: "sqrt 100 = 10"
  by (rule real_sqrt_unique) simp_all

lemma sqrt_68: "sqrt 68 < 10"
proof -
  have "sqrt 68 < sqrt 100" by (simp only: real_sqrt_less_iff)
  then show ?thesis by (simp only: sqrt_100)
qed

lemma sqrt_25_9: "sqrt (25 / 9) = 5 / 3"
  by (rule real_sqrt_unique) (simp_all add: power2_eq_square)

lemma sin_arctan_4_3: "sin (arctan (4 / 3)) = 4 / 5"
proof -
  have e: "1 + (4 / 3 :: real)\<^sup>2 = 25 / 9" by (simp add: power2_eq_square)
  show ?thesis unfolding sin_arctan e sqrt_25_9 by simp
qed

lemma angle_4_3: "angleBetween 0 (arctan (4 / 3)) = 4 / 5"
proof -
  have "angleBetween 0 (arctan (4 / 3)) = cos (- arctan (4 / 3) + pi / 2)"
    by (simp add: angleBetween_def)
  also have "\<dots> = - sin (- arctan (4 / 3))" by (rule cos_shift)
  finally show ?thesis by (simp add: sin_arctan_4_3)
qed

lemma third_step:
  "getStepDistance thirdStone = Some (0, thirdStone')"
  "getStepDistance thirdStone' = Some (0, thirdStone')"
  by (simp_all add: getStepDistance_def thirdStone_def thirdStone'_def newItem_def
      emptyCache_def truthy_def)

lemma fast_third_quadratic:
  "discriminant fastStone thirdStone 40 0 = 230400"
  "root1 fastStone thirdStone 40 0 = 13 / 40"
  "root2 fastStone thirdStone 40 0 = 1 / 40"
proof -
  have a: "sweep_a fastStone thirdStone 40 0 = 1600"
    by (simp add: sweep_a_def sweep_dx_def sweep_dy_def fastStone_def thirdStone_def newItem_def)
  have b: "sweep_b fastStone thirdStone 40 0 = - 560"
    by (simp add: sweep_b_def sweep_dx_def sweep_dy_def sweep_fx_def sweep_fy_def
        fastStone_def thirdStone_def newItem_def)
  have c: "sweep_c fastStone thirdStone = 13"
    by (simp add: sweep_c_def sweep_fx_def sweep_fy_def fastStone_def thirdStone_def newItem_def)
  show d: "discriminant fastStone thirdStone 40 0 = 230400"
    by (simp add: discriminant_def a b c)
  show "root1 fastStone thirdStone 40 0 = 13 / 40"
    by (simp add: root1_def d a b sqrt_230400)
  show "root2 fastStone thirdStone 40 0 = 1 / 40"
    by (simp add: root2_def d a b sqrt_230400)
qed

lemma fast_third_sweep: "sweepDistance fastStone thirdStone 40 0 = Some 1"
  by (simp add: sweepDistance_pos_disc fast_third_quadratic)

lemma fast_third_sweep': "sweepDistance fastStone' thirdStone 40 0 = Some 1"
  unfolding fastStone'_def sweepDistance_cache by (rule fast_third_sweep)

lemma third_fast_sweep': "sweepDistance thirdStone' fastStone' 0 40 = Some 0"
  unfolding fastStone'_def thirdStone'_def sweepDistance_cache
  using sweepDistance_swap[of fastStone thirdStone 40 0 1] fast_third_sweep
  by (simp add: fast_third_quadratic)

lemma three_contact_far:
  "getDistanceToIntersection [fastStone, smallStone, thirdStone] 0 (Suc 0) =
     Some (5, [fastStone', smallStone', thirdStone])"
  using getDistanceToIntersection_eq[of 0 "[fastStone, smallStone, thirdStone]" 1 40 fastStone'
      0 smallStone']
  by (simp add: fast_small_step fast_small_sweep)

lemma three_closest_far:
  "getClosestItemAfterMove [fastStone', smallStone', thirdStone] 0 (Suc 0) 5 = 2"
proof -
  have "abcSquare (- 2) (- 8) < 10" using sqrt_68 by (simp add: abcSquare_def)
  then show ?thesis
    by (simp add: getClosestItemAfterMove_def Let_def upt_rec fastStone'_def smallStone'_def
        fastStone_def smallStone_def thirdStone_def newItem_def)
qed

lemma three_contact_near:
  "getDistanceToIntersection [fastStone', smallStone', thirdStone] 0 2 =
     Some (1, [fastStone', smallStone', thirdStone'])"
  using getDistanceToIntersection_eq[of 0 "[fastStone', smallStone', thirdStone]" 2 40 fastStone'
      0 thirdStone']
  by (simp add: fast_small_step' third_step fast_third_sweep')

lemma three_contact_back:
  "getDistanceToIntersection [fastStone', smallStone', thirdStone'] 2 0 =
     Some (0, [fastStone', smallStone', thirdStone'])"
  using getDistanceToIntersection_eq[of 2 "[fastStone', smallStone', thirdStone']" 0 0 thirdStone'
      40 fastStone']
  by (simp add: fast_small_step' third_step third_fast_sweep')

lemma three_closest_near:
  "getClosestItemAfterMove [fastStone', smallStone', thirdStone'] 0 2 1 = 2"
  by (simp add: getClosestItemAfterMove_def Let_def upt_rec abcSquare_axis fastStone'_def
      smallStone'_def thirdStone'_def fastStone_def smallStone_def thirdStone_def newItem_def)

lemma three_move:
  "moveToContact [fastStone', smallStone', thirdStone'] 0 2 1 0 =
     [fastStone\<lparr>pos_x := 1\<rparr>, smallStone', thirdStone]"
proof -
  have "abcSquare (- 6) (- 8) = 10" by (simp add: abcSquare_def sqrt_100)
  then show ?thesis
    by (simp add: moveToContact_def Let_def setPos_def distanceBetween_def
        fastStone'_def thirdStone'_def fastStone_def thirdStone_def newItem_def)
qed

lemma three_consume:
  "consumeUnused [fastStone\<lparr>pos_x := 1\<rparr>, smallStone', thirdStone] 0 2 1 40 0 0 =
     Some [fastStone\<lparr>pos_x := 1, unused := 1 / 40\<rparr>, smallStone', thirdStone]"
  by (simp add: consumeUnused_def jsdiv_def Let_def fastStone_def newItem_def)

lemma three_abCourse:
  "abCourse [fastStone\<lparr>pos_x := 1, unused := 1 / 40\<rparr>, smallStone', thirdStone] 0 2 = arctan (4 / 3)"
  by (simp add: abCourse_def getCourse_def atan2_def fastStone_def thirdStone_def newItem_def)

lemma three_relAngle:
  "relAngle [fastStone\<lparr>pos_x := 1, unused := 1 / 40\<rparr>, smallStone', thirdStone] 0 2 = 4 / 5"
  unfolding relAngle_def three_abCourse
  using angle_4_3 by (simp add: fastStone_def newItem_def)

lemma three_deflect:
  "deflect [fastStone\<lparr>pos_x := 1, unused := 1 / 40\<rparr>, smallStone', thirdStone] 0 2 =
     Some [fastGlanced, smallStone', thirdHit]"
  unfolding deflect_def three_abCourse three_relAngle
  by (simp add: Let_def jsdiv_def fastGlanced_def thirdHit_def fastStone_def thirdStone_def newItem_def)

lemma three_update:
  "updateForCollision [fastStone', smallStone', thirdStone'] 0 2 1 =
     Some [fastGlanced, smallStone', thirdHit]"
  by (simp add: updateForCollision_def fast_small_step' third_step three_contact_back three_move
      three_consume three_deflect)

lemma three_fields: "speed fastStone' = 40" "speed thirdStone = 0"
  by (simp_all add: fastStone'_def fastStone_def thirdStone_def newItem_def)

lemma three_collide_near:
  "updateIfColliding [fastStone', smallStone', thirdStone] 0 2 (Suc (Suc 0)) =
     Some (True, 1, [fastGlanced, smallStone', thirdHit])"
  by (simp add: updateIfColliding.simps[of "[fastStone', smallStone', thirdStone]"] Let_def
      three_fields three_contact_near three_closest_near three_update)

lemma three_collide:
  "updateIfColliding [fastStone, smallStone, thirdStone] 0 (Suc 0) 0 =
     Some (True, 2, [fastGlanced, smallStone', thirdHit])"
  by (simp add: updateIfColliding.simps[of "[fastStone, smallStone, thirdStone]"] Let_def
      fast_small_speeds three_contact_far three_closest_far three_collide_near)

section \<open>A push against a stone that touches\<close>

text \<open>
  The same through the interface: a new stone is pushed at speed 4 towards a new stone
  that touches it. After \<^verbatim>\<open>push\<close> the stone follows a curve of curvature \<open>0\<close>; its
  step distance is the chord 4.
\<close>

lemma curve_free_next:
  assumes "shotCurve it = Curve 0" and "shotDistance it \<noteq> 0" and "shotTraveled it + speed it \<noteq> 0"
  shows "computeNextCurvePos it =
     Some (shotOriginX it + cos (shotCourse it) * \<bar>shotTraveled it + speed it\<bar>,
           shotOriginY it + sin (shotCourse it) * \<bar>shotTraveled it + speed it\<bar>)"
proof -
  from computeNextCurvePos_defined[OF assms(2,3)] obtain p where
    p: "computeNextCurvePos it = Some p" by (cases "computeNextCurvePos it") auto
  from computeNextCurvePos_no_curve[OF assms(1) p] p show ?thesis by simp
qed

lemma push_stone:
  "push (newItem 0 0 5 1) 0 4 (Curve 0) = Some pushedStone"
proof -
  have d: "distanceToTravel 4 (9 / 10) = Some (3991 / 100)"
    using distanceToTravel_closed[of "9 / 10" 4] by (simp add: closedForm_def stopSpeed_def)
  let ?it1 = "(newItem 0 0 5 1)\<lparr>speed := 4, shotCourse := 0, shotCurve := Curve 0,
      shotOriginX := 0, shotOriginY := 0, shotTraveled := 0, shotDistance := 3991 / 100\<rparr>"
  have "computeNextCurvePos ?it1 = Some (4, 0)"
    using curve_free_next[of ?it1] by (simp add: newItem_def)
  then have n: "getNextPos ?it1 = Some ((4, 0),
      ?it1\<lparr>cache := \<lparr>stepDistance = None, nextPos = Some (4, 0), nextCurvePos = Some (4, 0)\<rparr>\<rparr>)"
    by (simp add: getNextPos_def getNextCurvePos_def newItem_def emptyCache_def)
  have c: "getCourseToNextPositionOnCurve ?it1 = Some (0,
      ?it1\<lparr>cache := \<lparr>stepDistance = None, nextPos = Some (4, 0), nextCurvePos = Some (4, 0)\<rparr>\<rparr>)"
    unfolding getCourseToNextPositionOnCurve_def n
    by (simp add: getCourse_def atan2_def newItem_def)
  have f: "friction (newItem 0 0 5 1) = 9 / 10" "pos_x (newItem 0 0 5 1) = 0"
    "pos_y (newItem 0 0 5 1) = 0"
    by (simp_all add: newItem_def)
  show ?thesis
    unfolding push_def Let_def f
    by (simp add: maxSpeed_def d curveNumber_def c) (simp add: pushedStone_def newItem_def)
qed

lemma pushed_step:
  "getStepDistance (pushedStone\<lparr>unused := 1\<rparr>) = Some (4, pushedStone1)"
  "getStepDistance ((newItem 10 0 5 1)\<lparr>unused := 1\<rparr>) = Some (0, restStone1)"
  by (simp_all add: getStepDistance_def getNextCurvePos_def truthy_def abcSquare_axis
      pushedStone_def pushedStone1_def restStone1_def newItem_def emptyCache_def)

lemma pushed_sweep:
  "sweepDistance (pushedStone\<lparr>unused := 1\<rparr>) ((newItem 10 0 5 1)\<lparr>unused := 1\<rparr>) 4 0 = Some 0"
proof -
  let ?A = "pushedStone\<lparr>unused := 1\<rparr>" and ?B = "(newItem 10 0 5 1)\<lparr>unused := 1\<rparr>"
  have a: "sweep_a ?A ?B 4 0 = 16"
    by (simp add: sweep_a_def sweep_dx_def sweep_dy_def pushedStone_def newItem_def)
  have b: "sweep_b ?A ?B 4 0 = - 80"
    by (simp add: sweep_b_def sweep_dx_def sweep_dy_def sweep_fx_def sweep_fy_def
        pushedStone_def newItem_def)
  have c: "sweep_c ?A ?B = 0"
    by (simp add: sweep_c_def sweep_fx_def sweep_fy_def pushedStone_def newItem_def)
  have d: "discriminant ?A ?B 4 0 = 6400"
    by (simp add: discriminant_def a b c)
  have "root1 ?A ?B 4 0 = 5" "root2 ?A ?B 4 0 = 0"
    by (simp_all add: root1_def root2_def d a b sqrt_6400)
  then show ?thesis by (simp add: sweepDistance_pos_disc d)
qed

lemma pushed_contact:
  "getDistanceToIntersection [pushedStone\<lparr>unused := 1\<rparr>, (newItem 10 0 5 1)\<lparr>unused := 1\<rparr>] 0 (Suc 0)
     = Some (0, [pushedStone1, restStone1])"
  using getDistanceToIntersection_eq[of 0
      "[pushedStone\<lparr>unused := 1\<rparr>, (newItem 10 0 5 1)\<lparr>unused := 1\<rparr>]" 1 4 pushedStone1 0 restStone1]
  by (simp add: pushed_step pushed_sweep)

lemma pushed_fields:
  "speed (pushedStone\<lparr>unused := 1\<rparr>) = 4" "speed ((newItem 10 0 5 1)\<lparr>unused := 1\<rparr>) = 0"
  "unused (pushedStone\<lparr>unused := 1\<rparr>) = 1"
  "speed pushedStone1 = 4" "speed restStone1 = 0" "unused pushedStone1 = 1"
  by (simp_all add: pushedStone_def pushedStone1_def restStone1_def newItem_def)

lemma pushed_collide:
  "updateIfColliding [pushedStone\<lparr>unused := 1\<rparr>, (newItem 10 0 5 1)\<lparr>unused := 1\<rparr>] 0 (Suc 0) 0
     = Some (False, 1, [pushedStone1, restStone1])"
  by (simp add: updateIfColliding.simps[of "[pushedStone\<lparr>unused := 1\<rparr>, (newItem 10 0 5 1)\<lparr>unused := 1\<rparr>]"]
      Let_def pushed_fields pushed_contact)

lemma pushed_order:
  "orderByDistance [pushedStone\<lparr>unused := 1\<rparr>, (newItem 10 0 5 1)\<lparr>unused := 1\<rparr>] [0, Suc 0] 0
     = [0, Suc 0]"
  by (simp add: orderByDistance_def distanceBetween_def abcSquare_axis pushedStone_def newItem_def)

lemma pushed_pass:
  "collisionStep [pushedStone\<lparr>unused := 1\<rparr>, (newItem 10 0 5 1)\<lparr>unused := 1\<rparr>]
     = Some (False, [pushedStone1, restStone1])"
  by (simp add: collisionStep_def upt_2 pushed_fields pushed_order pushed_collide)

lemma pushed_loop:
  "collisionLoop [pushedStone\<lparr>unused := 1\<rparr>, (newItem 10 0 5 1)\<lparr>unused := 1\<rparr>] 0
     = Some (False, 1, [pushedStone1, restStone1])"
  by (simp add: collisionLoop.simps[of _ 0] pushed_pass stepCollisions_def)

lemma pushed_physics_item: "applyPhysicsItem pushedStone1 = Some pushedMoved"
proof -
  let ?it2 = "(setPos pushedStone1 4 0)\<lparr>shotTraveled := 4\<rparr>"
  have "computeNextCurvePos ?it2 = Some (8, 0)"
    using curve_free_next[of ?it2]
    by (simp add: setPos_def pushedStone1_def pushedStone_def newItem_def)
  then have n: "getNextPos ?it2 = Some ((8, 0),
      ?it2\<lparr>cache := \<lparr>stepDistance = None, nextPos = Some (8, 0), nextCurvePos = Some (8, 0)\<rparr>\<rparr>)"
    by (simp add: getNextPos_def getNextCurvePos_def setPos_def emptyCache_def
        pushedStone1_def pushedStone_def newItem_def)
  have c: "getCourseToNextPositionOnCurve ?it2 = Some (0,
      ?it2\<lparr>cache := \<lparr>stepDistance = None, nextPos = Some (8, 0), nextCurvePos = Some (8, 0)\<rparr>\<rparr>)"
    unfolding getCourseToNextPositionOnCurve_def n
    by (simp add: getCourse_def atan2_def setPos_def pushedStone1_def pushedStone_def newItem_def)
  have g: "getNextCurvePos pushedStone1 = Some ((4, 0), pushedStone1)"
    by (simp add: getNextCurvePos_def pushedStone1_def pushedStone_def newItem_def)
  have f: "speed pushedStone1 \<noteq> 0 \<and> unused pushedStone1 \<noteq> 0" "shotCurve pushedStone1 \<noteq> NoCurve"
    "shotTraveled (setPos pushedStone1 4 0) + speed (setPos pushedStone1 4 0) = 4"
    "shotCurve ?it2 \<noteq> NoCurve"
    by (simp_all add: setPos_def pushedStone1_def pushedStone_def newItem_def)
  show ?thesis
    unfolding applyPhysicsItem_def Let_def
    by (simp add: f g c)
       (simp add: stopSpeed_def pushedMoved_def setPos_def pushedStone1_def pushedStone_def
          newItem_def)
qed

lemma pushed_physics:
  "applyPhysics [pushedStone1, restStone1] = Some (True, [pushedMoved, restStone1])"
proof -
  have "applyPhysicsItem restStone1 = Some restStone1"
    by (simp add: applyPhysicsItem_def restStone1_def newItem_def)
  moreover have "speed pushedMoved \<noteq> 0" by (simp add: pushedMoved_def)
  ultimately show ?thesis by (simp add: applyPhysics_def pushed_physics_item)
qed

lemma pushed_tick:
  "tick pushedWorld = Some (True, \<lparr>items = [pushedMoved, restStone1], lastFinished = True\<rparr>)"
  by (simp add: tick_def pushedWorld_def stepCollisions_def resetItems_def pushed_loop
      pushed_physics)

lemma pushed_overlap:
  "distanceBetween pushedStone (newItem 10 0 5 1) = 10"
  "distanceBetween pushedMoved restStone1 = 6"
  "radius pushedMoved + radius restStone1 = 10"
  by (simp_all add: distanceBetween_def abcSquare_axis pushedMoved_def pushedStone_def
      restStone1_def newItem_def)

text \<open>
  Claim C3 says that after every tick two items that are not disabled are at least the
  sum of their radii apart. Two new stones of radius 5 at (0, 0) and (10, 0) touch and
  do not overlap. After \<^verbatim>\<open>push\<close> of the first towards the second at speed 4, one
  \<^verbatim>\<open>tick()\<close> resolves no collision, since the distance to the contact is \<open>0\<close> and
  not positive, and moves the first stone 4 into the second: the centres are then 6
  apart, the sum of the radii is 10. \<^verbatim>\<open>tick\<close> does not call \<^verbatim>\<open>collisionCheck\<close>.
\<close>

theorem C3_touching_stones_overlap:
  "push (newItem 0 0 5 1) 0 4 (Curve 0) = Some pushedStone
   \<and> distanceBetween pushedStone (newItem 10 0 5 1)
       = radius pushedStone + radius (newItem 10 0 5 1)
   \<and> tick pushedWorld = Some (True, \<lparr>items = [pushedMoved, restStone1], lastFinished = True\<rparr>)
   \<and> distanceBetween pushedMoved restStone1 = 6
   \<and> radius pushedMoved + radius restStone1 = 10
   \<and> \<not> disabled pushedMoved \<and> \<not> disabled restStone1"
  using push_stone pushed_tick pushed_overlap
  by (simp add: pushedMoved_def pushedStone_def restStone1_def newItem_def)

text \<open>The overlap that Claim C3 excludes, read off the tick above.\<close>

theorem C3_witness:
  "distanceBetween pushedMoved restStone1 < radius pushedMoved + radius restStone1"
  using C3_touching_stones_overlap by simp

section \<open>A tick of well-formed items yields a value\<close>

text \<open>
  The functions of the model return \<open>None\<close> where the arithmetic of the source leaves
  the real numbers. For items that are well formed and in order on their curves no
  function does, and both properties hold again after the tick.
\<close>

lemma curve_ok_simps [simp]:
  "curve_ok (it\<lparr>cache := c\<rparr>) = curve_ok it"
  "curve_ok (it\<lparr>course := k\<rparr>) = curve_ok it"
  "curve_ok (it\<lparr>unused := u\<rparr>) = curve_ok it"
  "curve_ok (it\<lparr>pos_x := x\<rparr>) = curve_ok it"
  "curve_ok (it\<lparr>pos_y := y\<rparr>) = curve_ok it"
  "curve_ok (it\<lparr>shotCurve := NoCurve\<rparr>)"
  by (simp_all add: curve_ok_def)

lemma curve_ok_setPos [simp]: "curve_ok (setPos it x y) = curve_ok it"
  by (simp add: setPos_def)

lemma curve_ok_straight: "shotCurve it = NoCurve \<Longrightarrow> curve_ok (it\<lparr>speed := v\<rparr>)"
  by (simp add: curve_ok_def)

lemma getNextCurvePos_defined:
  assumes "curve_ok it" and "shotCurve it \<noteq> NoCurve"
  shows "\<exists>p it'. getNextCurvePos it = Some (p, it')"
proof (cases "nextCurvePos (cache it)")
  case (Some p)
  then show ?thesis by (simp add: getNextCurvePos_def)
next
  case None
  from assms have "shotDistance it \<noteq> 0" "shotTraveled it + speed it \<noteq> 0"
    by (auto simp: curve_ok_def)
  from computeNextCurvePos_defined[OF this] obtain p where "computeNextCurvePos it = Some p"
    by (cases "computeNextCurvePos it") auto
  with None show ?thesis by (simp add: getNextCurvePos_def)
qed

lemma getStepDistance_defined:
  assumes "curve_ok it"
  shows "\<exists>s it'. getStepDistance it = Some (s, it')"
proof (cases "truthy (stepDistance (cache it))")
  case (Some v)
  then show ?thesis by (simp add: getStepDistance_def)
next
  case None
  show ?thesis
  proof (cases "shotCurve it = NoCurve")
    case True
    with None show ?thesis by (simp add: getStepDistance_def Let_def)
  next
    case False
    from getNextCurvePos_defined[OF assms False] obtain p it1 where
      "getNextCurvePos it = Some (p, it1)" by blast
    with None False show ?thesis by (simp add: getStepDistance_def Let_def)
  qed
qed

lemma getStepDistance_curve_ok:
  assumes "getStepDistance it = Some (s, it')"
  shows "curve_ok it' = curve_ok it"
proof -
  from getStepDistance_frame[OF assms] obtain c where "it' = it\<lparr>cache := c\<rparr>" by blast
  then show ?thesis by simp
qed

lemma getDistanceToIntersection_defined:
  assumes A: "A < length w" and B: "B < length w" and ok: "list_all curve_ok w"
  shows "\<exists>d w1. getDistanceToIntersection w A B = Some (d, w1)"
proof -
  have "curve_ok (w ! A)" using ok A by (rule list_all_nthD)
  from getStepDistance_defined[OF this] obtain sA a1 where
    sa: "getStepDistance (w ! A) = Some (sA, a1)" by blast
  have "curve_ok a1" using getStepDistance_curve_ok[OF sa] \<open>curve_ok (w ! A)\<close> by simp
  with ok have "list_all curve_ok (w[A := a1])" by (rule list_all_replace)
  then have "curve_ok (w[A := a1] ! B)" by (rule list_all_nthD) (simp add: B)
  from getStepDistance_defined[OF this] obtain sB b1 where
    sb: "getStepDistance (w[A := a1] ! B) = Some (sB, b1)" by blast
  from sweepDistance_defined[of "w ! A" "w ! B" sA sB] obtain d where
    "sweepDistance (w ! A) (w ! B) sA sB = Some d" by (cases "sweepDistance (w ! A) (w ! B) sA sB") auto
  then show ?thesis unfolding getDistanceToIntersection_eq[OF A B sa sb] by simp
qed

lemma getDistanceToIntersection_curve_ok:
  assumes g: "getDistanceToIntersection w A B = Some (d, w1)" and ok: "list_all curve_ok w"
      and A: "A < length w" and B: "B < length w"
  shows "list_all curve_ok w1"
proof -
  from g obtain sA a1 sB b1 where
    sa: "getStepDistance (w ! A) = Some (sA, a1)" and
    sb: "getStepDistance (w[A := a1] ! B) = Some (sB, b1)" and
    w1: "w1 = w[A := a1, B := b1]"
    by (rule getDistanceToIntersection_SomeD)
  have "curve_ok (w ! A)" using ok A by (rule list_all_nthD)
  then have "curve_ok a1" using getStepDistance_curve_ok[OF sa] by simp
  with ok have i1: "list_all curve_ok (w[A := a1])" by (rule list_all_replace)
  then have "curve_ok (w[A := a1] ! B)" by (rule list_all_nthD) (simp add: B)
  then have "curve_ok b1" using getStepDistance_curve_ok[OF sb] by simp
  with i1 show ?thesis unfolding w1 by (rule list_all_replace)
qed

lemma moveToContact_curve_ok:
  assumes "list_all curve_ok w"
  shows "list_all curve_ok (moveToContact w A B dA dB)"
proof -
  let ?w1 = "w[A := (w ! A)\<lparr>shotCurve := NoCurve\<rparr>]"
  let ?w2 = "?w1[B := (?w1 ! B)\<lparr>shotCurve := NoCurve\<rparr>]"
  let ?w3 = "?w2[A := setPos (?w2 ! A)
                  (pos_x (?w2 ! A) + cos (course (?w2 ! A)) * dA)
                  (pos_y (?w2 ! A) + sin (course (?w2 ! A)) * dA)]"
  let ?w4 = "?w3[B := setPos (?w3 ! B)
                  (pos_x (?w3 ! B) + cos (course (?w3 ! B)) * dB)
                  (pos_y (?w3 ! B) + sin (course (?w3 ! B)) * dB)]"
  have 1: "list_all curve_ok ?w1" using assms by (rule list_all_modify) simp
  have 2: "list_all curve_ok ?w2" using 1 by (rule list_all_modify) simp
  have 3: "list_all curve_ok ?w3"
    using 2 by (rule list_all_modify[where f="\<lambda>it. setPos it _ _"]) simp
  have 4: "list_all curve_ok ?w4"
    using 3 by (rule list_all_modify[where f="\<lambda>it. setPos it _ _"]) simp
  have 5: "list_all curve_ok (?w4[A := setPos (?w4 ! A) x y])" for x y
    using 4 by (rule list_all_modify[where f="\<lambda>it. setPos it _ _"]) simp
  show ?thesis unfolding moveToContact_def Let_def using 4 5 by (simp split: if_splits)
qed

lemma moveToContact_shotCurve:
  assumes i: "i < length w" and ab: "i = A \<or> i = B"
  shows "shotCurve (moveToContact w A B dA dB ! i) = NoCurve"
proof -
  define w1 where "w1 = w[A := (w ! A)\<lparr>shotCurve := NoCurve\<rparr>]"
  define w2 where "w2 = w1[B := (w1 ! B)\<lparr>shotCurve := NoCurve\<rparr>]"
  define w3 where "w3 = w2[A := setPos (w2 ! A)
                  (pos_x (w2 ! A) + cos (course (w2 ! A)) * dA)
                  (pos_y (w2 ! A) + sin (course (w2 ! A)) * dA)]"
  define w4 where "w4 = w3[B := setPos (w3 ! B)
                  (pos_x (w3 ! B) + cos (course (w3 ! B)) * dB)
                  (pos_y (w3 ! B) + sin (course (w3 ! B)) * dB)]"
  have 2: "shotCurve (w2 ! i) = NoCurve"
    using i ab by (cases "A = B") (auto simp: w2_def w1_def nth_list_update)
  have 3: "shotCurve (w3 ! i) = shotCurve (w2 ! i)"
    unfolding w3_def by (rule nth_modify_field[where f="\<lambda>it. setPos it _ _"])
      (simp_all add: i w1_def w2_def setPos_def)
  have 4: "shotCurve (w4 ! i) = shotCurve (w3 ! i)"
    unfolding w4_def by (rule nth_modify_field[where f="\<lambda>it. setPos it _ _"])
      (simp_all add: i w1_def w2_def w3_def setPos_def)
  have 5: "shotCurve (w4[A := setPos (w4 ! A) x y] ! i) = shotCurve (w4 ! i)" for x y
    by (rule nth_modify_field[where f="\<lambda>it. setPos it _ _"])
      (simp_all add: i w1_def w2_def w3_def w4_def setPos_def)
  have "moveToContact w A B dA dB =
     (if distanceBetween (w4 ! A) (w4 ! B) < radius (w4 ! A) + radius (w4 ! B)
      then w4[A := setPos (w4 ! A)
                  (pos_x (w2 ! A) + cos (course (w4 ! A)) * dA * (95 / 100))
                  (pos_y (w2 ! A) + sin (course (w4 ! A)) * dA * (95 / 100))]
      else w4)"
    unfolding moveToContact_def Let_def w4_def w3_def w2_def w1_def by (rule refl)
  then show ?thesis using 2 3 4 5 by (simp split: if_splits)
qed

lemma consumeUnused_curve_ok:
  assumes ok: "list_all curve_ok w" and sA: "0 < sA"
      and c: "consumeUnused w A B (t * sA) sA (t * sB) sB = Some w'"
  shows "list_all curve_ok w' \<and> (\<forall>i < length w. shotCurve (w' ! i) = shotCurve (w ! i))"
proof -
  define w1 where "w1 = w[A := (w ! A)\<lparr>unused := unused (w ! A) * t\<rparr>]"
  define w2 where "w2 = w1[B := (w1 ! B)\<lparr>unused := unused (w1 ! B) * t\<rparr>]"
  have 1: "list_all curve_ok w1" unfolding w1_def using ok by (rule list_all_modify) simp
  have 2: "list_all curve_ok w2" unfolding w2_def using 1 by (rule list_all_modify) simp
  have f1: "shotCurve (w1 ! i) = shotCurve (w ! i)" if "i < length w" for i
    unfolding w1_def by (rule nth_modify_field[OF _ that]) simp
  have f2: "shotCurve (w2 ! i) = shotCurve (w1 ! i)" if "i < length w" for i
    unfolding w2_def by (rule nth_modify_field) (simp_all add: that w1_def)
  from c have "w' = (if sB \<noteq> 0 then w2 else w1)"
    unfolding consumeUnused_exact[OF sA] by (auto simp: Let_def w2_def w1_def)
  with 1 2 f1 f2 show ?thesis by (simp split: if_splits)
qed

lemma deflect_defined:
  assumes inv: "list_all inv_item w" and B: "B < length w"
  shows "\<exists>w'. deflect w A B = Some w'"
proof -
  define ab where "ab = abCourse w A B"
  define rel where "rel = relAngle w A B"
  define w1 where "w1 = w[A := (w ! A)\<lparr>course := (if rel > 0 then ab - (pi / 2) else ab - (pi / 2) - pi)\<rparr>]"
  define w2 where "w2 = w1[B := (w1 ! B)\<lparr>course := ab\<rparr>]"
  have 1: "list_all inv_item w1" unfolding w1_def using inv by (rule list_all_modify) simp
  have 2: "list_all inv_item w2" unfolding w2_def using 1 by (rule list_all_modify) simp
  have len: "length w2 = length w" by (simp add: w2_def w1_def)
  have iB: "inv_item (w2 ! B)" by (rule list_all_nthD[OF 2]) (simp add: B len)
  then have pB: "power' (w2 ! B) \<noteq> 0" by (simp add: inv_item_def wf_item_def)
  show ?thesis
    unfolding deflect_def Let_def jsdiv_def
    using pB unfolding w2_def w1_def rel_def ab_def by simp
qed

lemma deflect_curve_ok:
  assumes ok: "list_all curve_ok w" and A: "A < length w" and B: "B < length w"
      and sA: "shotCurve (w ! A) = NoCurve" and sB: "shotCurve (w ! B) = NoCurve"
      and d: "deflect w A B = Some w'"
  shows "list_all curve_ok w'"
proof -
  define ab where "ab = abCourse w A B"
  define rel where "rel = relAngle w A B"
  define w1 where "w1 = w[A := (w ! A)\<lparr>course := (if rel > 0 then ab - (pi / 2) else ab - (pi / 2) - pi)\<rparr>]"
  define w2 where "w2 = w1[B := (w1 ! B)\<lparr>course := ab\<rparr>]"
  define w3 where "w3 = w2[A := (w2 ! A)\<lparr>speed := speed (w2 ! A) * \<bar>rel\<bar>\<rparr>]"
  from d obtain F where w': "w' = w3[B := (w3 ! B)\<lparr>speed := F * (1 - \<bar>rel\<bar>)\<rparr>]"
    unfolding deflect_def Let_def w3_def w2_def w1_def rel_def ab_def
    by (auto split: Option.bind_splits)
  have 1: "list_all curve_ok w1" unfolding w1_def using ok by (rule list_all_modify) simp
  have 2: "list_all curve_ok w2" unfolding w2_def using 1 by (rule list_all_modify) simp
  have c1: "shotCurve (w1 ! i) = shotCurve (w ! i)" if "i < length w" for i
    unfolding w1_def by (rule nth_modify_field[OF _ that]) simp
  have c2: "shotCurve (w2 ! i) = shotCurve (w1 ! i)" if "i < length w" for i
    unfolding w2_def by (rule nth_modify_field) (simp_all add: that w1_def)
  have c3: "shotCurve (w3 ! i) = shotCurve (w2 ! i)" if "i < length w" for i
    unfolding w3_def
    by (rule nth_modify_field[where f="\<lambda>it. it\<lparr>speed := speed it * \<bar>rel\<bar>\<rparr>"])
       (simp_all add: that w1_def w2_def)
  have a2: "shotCurve (w2 ! A) = NoCurve" using c1[OF A] c2[OF A] sA by simp
  have b3: "shotCurve (w3 ! B) = NoCurve" using c1[OF B] c2[OF B] c3[OF B] sB by simp
  have 3: "list_all curve_ok w3"
    unfolding w3_def using 2 by (rule list_all_replace) (rule curve_ok_straight[OF a2])
  show ?thesis
    unfolding w' using 3 by (rule list_all_replace) (rule curve_ok_straight[OF b3])
qed

lemma updateForCollision_total:
  assumes A: "A < length w" and B: "B < length w"
      and g: "getDistanceToIntersection w A B = Some (d, w1)"
      and pos: "0 < d" and inv: "list_all inv_item w" and ok: "list_all curve_ok w"
  shows "\<exists>w2. updateForCollision w1 A B d = Some w2 \<and> list_all curve_ok w2"
proof -
  from g obtain sA a1 where sa: "getStepDistance (w ! A) = Some (sA, a1)"
    by (auto elim: getDistanceToIntersection_SomeD)
  have "inv_item (w ! A)" using inv A by (rule list_all_nthD)
  with sa have nn: "0 \<le> sA" using getStepDistance_inv by blast
  obtain t sB where
    t: "0 < t" "t \<le> 1" "0 < sA" and
    eq: "updateForCollision w1 A B d =
       Option.bind (consumeUnused (moveToContact w1 A B (t * sA) (t * sB)) A B
                      (t * sA) sA (t * sB) sB)
         (\<lambda>w5. deflect w5 A B)"
    by (rule updateForCollision_contact[OF A B g sa pos nn])
  let ?m = "moveToContact w1 A B (t * sA) (t * sB)"
  have len1: "length w1 = length w" by (rule getDistanceToIntersection_length[OF g])
  have i1: "list_all inv_item w1" by (rule getDistanceToIntersection_inv[OF g inv A B])
  have o1: "list_all curve_ok w1" by (rule getDistanceToIntersection_curve_ok[OF g ok A B])
  have im: "list_all inv_item ?m" using i1 by (rule moveToContact_inv)
  have om: "list_all curve_ok ?m" using o1 by (rule moveToContact_curve_ok)
  have lm: "length ?m = length w" using len1 by simp
  obtain w5 where c: "consumeUnused ?m A B (t * sA) sA (t * sB) sB = Some w5"
    unfolding consumeUnused_exact[OF t(3)] by simp
  from consumeUnused_inv[OF im t(1,2,3) c]
  have i5: "list_all inv_item w5" and len5: "length w5 = length w" by (simp_all add: len1)
  from consumeUnused_curve_ok[OF om t(3) c]
  have o5: "list_all curve_ok w5" and
    f5: "\<forall>i < length ?m. shotCurve (w5 ! i) = shotCurve (?m ! i)" by simp_all
  have sA5: "shotCurve (w5 ! A) = NoCurve"
    using f5 A lm moveToContact_shotCurve[of A w1 A B "t * sA" "t * sB"] len1 by simp
  have sB5: "shotCurve (w5 ! B) = NoCurve"
    using f5 B lm moveToContact_shotCurve[of B w1 A B "t * sA" "t * sB"] len1 by simp
  have B5: "B < length w5" and A5: "A < length w5" using A B len5 by simp_all
  from deflect_defined[OF i5 B5] obtain w2 where df: "deflect w5 A B = Some w2" by blast
  have "list_all curve_ok w2" by (rule deflect_curve_ok[OF o5 A5 B5 sA5 sB5 df])
  moreover have "updateForCollision w1 A B d = Some w2" unfolding eq c using df by simp
  ultimately show ?thesis by blast
qed

lemma updateIfColliding_total:
  "list_all inv_item w \<Longrightarrow> list_all curve_ok w \<Longrightarrow> item1 < length w \<Longrightarrow> item2 < length w \<Longrightarrow>
   \<exists>hit calls w'. updateIfColliding w item1 item2 n = Some (hit, calls, w') \<and> list_all curve_ok w'"
proof (induction w item1 item2 n rule: updateIfColliding.induct)
  case (1 w item1 item2 attempt0)
  define attempt where "attempt = (if attempt0 = 0 then 1 else attempt0)"
  define A where "A = (if speed (w ! item1) \<ge> speed (w ! item2) then item1 else item2)"
  define B where "B = (if A = item1 then item2 else item1)"
  have A: "A < length w" and B: "B < length w"
    using "1.prems"(3,4) by (simp_all add: A_def B_def)
  from getDistanceToIntersection_defined[OF A B "1.prems"(2)] obtain d w1 where
    g: "getDistanceToIntersection w A B = Some (d, w1)" by blast
  have len1: "length w1 = length w" by (rule getDistanceToIntersection_length[OF g])
  have i1: "list_all inv_item w1"
    by (rule getDistanceToIntersection_inv[OF g "1.prems"(1) A B])
  have o1: "list_all curve_ok w1"
    by (rule getDistanceToIntersection_curve_ok[OF g "1.prems"(2) A B])
  define item where "item = getClosestItemAfterMove w1 A B d"
  have item: "item < length w1" unfolding item_def
    using getClosestItemAfterMove_bound[of B w1 A d] B len1 by simp
  have eq: "updateIfColliding w item1 item2 attempt0 =
     (if d > 0 then
        (if item \<noteq> B \<and> attempt < 20 then
           Option.bind (updateIfColliding w1 A item (attempt + 1))
             (\<lambda>(hit, calls, w2). Some (True, Suc calls, w2))
         else Option.bind (updateForCollision w1 A B d) (\<lambda>w2. Some (True, 1, w2)))
      else Some (False, 1, w1))"
    unfolding updateIfColliding.simps[of w item1 item2 attempt0] Let_def
    using g unfolding A_def B_def item_def attempt_def by simp
  show ?case
  proof (cases "d > 0")
    case False
    with eq o1 show ?thesis by auto
  next
    case True
    show ?thesis
    proof (cases "item \<noteq> B \<and> attempt < 20")
      case rec: True
      have A1: "A < length w1" using A len1 by simp
      from "1.IH"[OF attempt_def A_def B_def g refl True item_def rec i1 o1 A1 item]
      obtain hit2 calls2 w' where
        "updateIfColliding w1 A item (attempt + 1) = Some (hit2, calls2, w')"
        "list_all curve_ok w'" by blast
      with eq True rec show ?thesis by auto
    next
      case norec: False
      from updateForCollision_total[OF A B g True "1.prems"(1,2)] obtain w2 where
        "updateForCollision w1 A B d = Some w2" "list_all curve_ok w2" by blast
      with eq True norec show ?thesis by auto
    qed
  qed
qed

lemma testOrdered_total:
  "list_all inv_item w \<Longrightarrow> list_all curve_ok w \<Longrightarrow> source < length w \<Longrightarrow>
   \<forall>c \<in> set cs. c < length w \<Longrightarrow>
   \<exists>hit w'. testOrdered w source cs = Some (hit, w') \<and> list_all curve_ok w'"
proof (induction cs arbitrary: w)
  case Nil
  then show ?case by auto
next
  case (Cons c cs)
  have c: "c < length w" using Cons.prems(4) by simp
  from updateIfColliding_total[OF Cons.prems(1,2,3) c, of 0] obtain h calls w1 where
    u: "updateIfColliding w source c 0 = Some (h, calls, w1)" and o1: "list_all curve_ok w1"
    by blast
  from updateIfColliding_inv[OF Cons.prems(1,3) c u]
  have i1: "list_all inv_item w1" and len1: "length w1 = length w" by simp_all
  show ?case
  proof (cases h)
    case True
    with u o1 show ?thesis by auto
  next
    case False
    from Cons.IH[OF i1 o1] Cons.prems(3,4) len1 obtain hit w' where
      "testOrdered w1 source cs = Some (hit, w')" "list_all curve_ok w'" by auto
    with u False show ?thesis by auto
  qed
qed

lemma sweepItems_total:
  "list_all inv_item w \<Longrightarrow> list_all curve_ok w \<Longrightarrow> \<forall>i \<in> set is. i < length w \<Longrightarrow>
   \<exists>hit w'. sweepItems w is = Some (hit, w') \<and> list_all curve_ok w'"
proof (induction "is" arbitrary: w)
  case Nil
  then show ?case by auto
next
  case (Cons i rest)
  show ?case
  proof (cases "speed (w ! i) \<noteq> 0 \<and> unused (w ! i) \<noteq> 0")
    case False
    from Cons.IH[OF Cons.prems(1,2)] Cons.prems(3) obtain hit w' where
      "sweepItems w rest = Some (hit, w')" "list_all curve_ok w'" by auto
    with False show ?thesis by auto
  next
    case True
    have "set (tl (orderByDistance w [0..<length w] i)) \<subseteq> set [0..<length w]"
      using list.set_sel(2)[of "orderByDistance w [0..<length w] i"]
      by (cases "orderByDistance w [0..<length w] i = []") auto
    then have bnd: "\<forall>c \<in> set (tl (orderByDistance w [0..<length w] i)). c < length w"
      by auto
    have i: "i < length w" using Cons.prems(3) by simp
    from testOrdered_total[OF Cons.prems(1,2) i bnd] obtain h w1 where
      t: "testOrdered w i (tl (orderByDistance w [0..<length w] i)) = Some (h, w1)" and
      o1: "list_all curve_ok w1" by blast
    from testOrdered_inv[OF Cons.prems(1) i bnd t]
    have i1: "list_all inv_item w1" and len1: "length w1 = length w" by simp_all
    show ?thesis
    proof (cases h)
      case True
      with t o1 \<open>speed (w ! i) \<noteq> 0 \<and> unused (w ! i) \<noteq> 0\<close> show ?thesis by (auto simp: Let_def)
    next
      case False
      from Cons.IH[OF i1 o1] Cons.prems(3) len1 obtain hit w' where
        "sweepItems w1 rest = Some (hit, w')" "list_all curve_ok w'" by auto
      with t False \<open>speed (w ! i) \<noteq> 0 \<and> unused (w ! i) \<noteq> 0\<close> show ?thesis
        by (auto simp: Let_def)
    qed
  qed
qed

lemma collisionStep_total:
  "list_all inv_item w \<Longrightarrow> list_all curve_ok w \<Longrightarrow>
   \<exists>hit w'. collisionStep w = Some (hit, w') \<and> list_all curve_ok w'"
  unfolding collisionStep_def by (rule sweepItems_total) simp_all

lemma collisionLoop_total:
  "list_all inv_item w \<Longrightarrow> list_all curve_ok w \<Longrightarrow>
   \<exists>passes w'. collisionLoop w n = Some (False, passes, w') \<and> list_all inv_item w'
      \<and> list_all curve_ok w'"
proof (induction w n rule: collisionLoop.induct)
  case (1 w loopBreaker)
  from collisionStep_total[OF "1.prems"] obtain thisTime w1 where
    c: "collisionStep w = Some (thisTime, w1)" and o1: "list_all curve_ok w1" by blast
  from collisionStep_inv[OF "1.prems"(1) c] have i1: "list_all inv_item w1" by simp
  have ns: "\<not> (stepCollisions \<and> thisTime)" by (simp add: stepCollisions_def)
  show ?case
  proof (cases "thisTime \<and> Suc loopBreaker < 10")
    case True
    from "1.IH"[OF c refl ns True i1 o1] obtain p w' where
      "collisionLoop w1 (Suc loopBreaker) = Some (False, p, w')" "list_all inv_item w'"
      "list_all curve_ok w'" by blast
    with c True show ?thesis
      by (auto simp: collisionLoop.simps[of w loopBreaker] stepCollisions_def)
  next
    case False
    with c i1 o1 show ?thesis
      by (auto simp: collisionLoop.simps[of w loopBreaker] stepCollisions_def)
  qed
qed

lemma getNextPos_defined:
  assumes "curve_ok it"
  shows "\<exists>p it'. getNextPos it = Some (p, it')"
proof (cases "nextPos (cache it)")
  case (Some p)
  then show ?thesis by (simp add: getNextPos_def)
next
  case None
  show ?thesis
  proof (cases "shotCurve it = NoCurve")
    case True
    with None show ?thesis by (simp add: getNextPos_def Let_def)
  next
    case False
    from getNextCurvePos_defined[OF assms False] obtain p it' where
      "getNextCurvePos it = Some (p, it')" by blast
    with None False show ?thesis by (simp add: getNextPos_def Let_def)
  qed
qed

lemma getCourseToNextPositionOnCurve_defined:
  assumes "curve_ok it"
  shows "\<exists>c it'. getCourseToNextPositionOnCurve it = Some (c, it')"
proof -
  from getNextPos_defined[OF assms] obtain p it' where "getNextPos it = Some (p, it')" by blast
  then show ?thesis by (simp add: getCourseToNextPositionOnCurve_def)
qed


lemma applyPhysicsItem_total:
  assumes inv: "inv_item it" and ok: "curve_ok it"
  shows "\<exists>it'. applyPhysicsItem it = Some it' \<and> curve_ok it'"
proof (cases "speed it \<noteq> 0 \<and> unused it \<noteq> 0")
  case False
  with ok show ?thesis by (auto simp: applyPhysicsItem_def)
next
  case True
  have nn: "0 \<le> speed it" "0 \<le> friction it"
    using inv by (simp_all add: inv_item_def wf_item_def)
  show ?thesis
  proof (cases "shotCurve it = NoCurve")
    case straight: True
    define it3 where "it3 = (setPos it (pos_x it + cos (course it) * speed it * unused it)
                              (pos_y it + sin (course it) * speed it * unused it))
                             \<lparr>shotTraveled := shotTraveled it + speed it\<rparr>"
    have s3: "shotCurve it3 = NoCurve" "speed it3 = speed it"
      using straight by (simp_all add: it3_def setPos_def)
    have eq: "applyPhysicsItem it =
        Some ((if speed it3 * friction it3 < stopSpeed
               then it3\<lparr>speed := speed it3 * friction it3, speed := 0\<rparr>
               else it3\<lparr>speed := speed it3 * friction it3\<rparr>)\<lparr>unused := 0\<rparr>)"
      unfolding applyPhysicsItem_def Let_def using True straight
      by (simp add: it3_def setPos_def)
    have "curve_ok ((if speed it3 * friction it3 < stopSpeed
               then it3\<lparr>speed := speed it3 * friction it3, speed := 0\<rparr>
               else it3\<lparr>speed := speed it3 * friction it3\<rparr>)\<lparr>unused := 0\<rparr>)"
      using s3 by (simp add: curve_ok_def)
    with eq show ?thesis by simp
  next
    case curved: False
    from getNextCurvePos_defined[OF ok curved] obtain obj it0 where
      g: "getNextCurvePos it = Some (obj, it0)" by blast
    from getNextCurvePos_frame[OF g] obtain c0 where it0: "it0 = it\<lparr>cache := c0\<rparr>" by blast
    define it2 where "it2 = (setPos it0 (fst obj) (snd obj))
                              \<lparr>shotTraveled := shotTraveled it + speed it\<rparr>"
    have f2: "shotCurve it2 = shotCurve it" "speed it2 = speed it"
      "shotDistance it2 = shotDistance it" "shotTraveled it2 = shotTraveled it + speed it"
      "friction it2 = friction it"
      by (simp_all add: it2_def it0 setPos_def)
    have ok2: "curve_ok it2"
      using ok curved nn unfolding curve_ok_def f2 by auto
    from getCourseToNextPositionOnCurve_defined[OF ok2] obtain c it1 where
      gc: "getCourseToNextPositionOnCurve it2 = Some (c, it1)" by blast
    then obtain p where np: "getNextPos it2 = Some (p, it1)"
      by (auto simp: getCourseToNextPositionOnCurve_def split: Option.bind_splits)
    from getNextPos_frame[OF np] obtain c1 where it1: "it1 = it2\<lparr>cache := c1\<rparr>" by blast
    define it3 where "it3 = it1\<lparr>course := c\<rparr>"
    have f3: "shotCurve it3 = shotCurve it" "speed it3 = speed it"
      "shotDistance it3 = shotDistance it" "shotTraveled it3 = shotTraveled it + speed it"
      "friction it3 = friction it"
      by (simp_all add: it3_def it1 f2)
    have eq: "applyPhysicsItem it =
        Some ((if speed it3 * friction it3 < stopSpeed
               then it3\<lparr>speed := speed it3 * friction it3, speed := 0\<rparr>
               else it3\<lparr>speed := speed it3 * friction it3\<rparr>)\<lparr>unused := 0\<rparr>)"
      unfolding applyPhysicsItem_def Let_def using True curved g gc
      by (simp add: it3_def it2_def it0 setPos_def)
    have pos: "0 < shotTraveled it + speed it" "0 \<le> shotTraveled it" "shotDistance it \<noteq> 0"
      using ok curved by (auto simp: curve_ok_def)
    have sf: "0 \<le> speed it * friction it" using nn by simp
    have "0 < shotTraveled it + speed it + speed it * friction it"
      using pos(1) sf by linarith
    then have "curve_ok ((if speed it3 * friction it3 < stopSpeed
               then it3\<lparr>speed := speed it3 * friction it3, speed := 0\<rparr>
               else it3\<lparr>speed := speed it3 * friction it3\<rparr>)\<lparr>unused := 0\<rparr>)"
      using f3 pos nn by (simp add: curve_ok_def)
    with eq show ?thesis by simp
  qed
qed

lemma applyPhysicsItems_total:
  "list_all inv_item w \<Longrightarrow> list_all curve_ok w \<Longrightarrow>
   \<exists>m w'. applyPhysicsItems w = Some (m, w') \<and> list_all curve_ok w'"
proof (induction w)
  case Nil
  then show ?case by auto
next
  case (Cons it rest)
  from Cons.prems have "inv_item it" "curve_ok it" by simp_all
  from applyPhysicsItem_total[OF this] obtain it1 where
    a: "applyPhysicsItem it = Some it1" "curve_ok it1" by blast
  from Cons.IH Cons.prems obtain m1 rest1 where
    r: "applyPhysicsItems rest = Some (m1, rest1)" "list_all curve_ok rest1" by auto
  from a r show ?case by auto
qed

lemma resetItems_curve_ok: "list_all curve_ok w \<Longrightarrow> list_all curve_ok (resetItems w)"
  by (simp add: resetItems_def list_all_iff)

lemma tick_defined:
  assumes wf: "list_all wf_item (items W)" and ok: "list_all curve_ok (items W)"
  shows "\<exists>r W'. tick W = Some (r, W') \<and> list_all wf_item (items W')
           \<and> list_all curve_ok (items W')"
proof -
  have i0: "list_all inv_item (resetItems (items W))" using wf by (rule resetItems_inv)
  have o0: "list_all curve_ok (resetItems (items W))" using ok by (rule resetItems_curve_ok)
  from collisionLoop_total[OF i0 o0, of 0] obtain passes w1 where
    l: "collisionLoop (resetItems (items W)) 0 = Some (False, passes, w1)" and
    i1: "list_all inv_item w1" and o1: "list_all curve_ok w1" by blast
  from applyPhysicsItems_total[OF i1 o1] obtain m w2 where
    a: "applyPhysicsItems w1 = Some (m, w2)" and o2: "list_all curve_ok w2" by blast
  from applyPhysicsItems_inv[OF i1 a] have "list_all inv_item w2" .
  then have wf2: "list_all wf_item w2" by (simp add: list_all_iff inv_item_def)
  have "tick W = Some (m, W\<lparr>items := w2, lastFinished := True\<rparr>)"
    unfolding tick_def Let_def using l a by (simp add: stepCollisions_def applyPhysics_def)
  with wf2 o2 show ?thesis by auto
qed

lemma two_stones_curve_ok: "list_all curve_ok (items twoStones)"
  by (simp add: twoStones_def fastStone_def smallStone_def newItem_def curve_ok_def)

section \<open>The bounds of a tick\<close>

text \<open>
  Claim C8. All functions of the model are total: the pass loop and the lookahead of
  \<^verbatim>\<open>updateIfColliding\<close> terminate by the measures \<open>10 - loopBreaker\<close> and
  \<open>20 - _attempt\<close> of their definitions, and \<^verbatim>\<open>tick\<close> on well-formed items yields a
  value. The loop of \<^verbatim>\<open>tick\<close> makes at most 10 passes, a call of
  \<^verbatim>\<open>updateIfColliding\<close> from a pass yields a value after at most 20 nested calls, and
  the call with \<^verbatim>\<open>_attempt = 20\<close> does not look ahead: a positive distance is resolved
  against its own pair.
\<close>

theorem C8_bounded_tick:
  "(list_all wf_item (items W) \<and> list_all curve_ok (items W) \<longrightarrow>
      (\<exists>r W'. tick W = Some (r, W')) \<and>
      (\<exists>passes w'. collisionLoop (resetItems (items W)) 0 = Some (False, passes, w')
          \<and> passes \<le> 10))
   \<and> (list_all inv_item w \<and> list_all curve_ok w \<and> item1 < length w \<and> item2 < length w \<longrightarrow>
      (\<exists>hit calls w'. updateIfColliding w item1 item2 0 = Some (hit, calls, w')
          \<and> calls \<le> 20))
   \<and> (\<forall>stepped passes w'. collisionLoop w 0 = Some (stepped, passes, w') \<longrightarrow> passes \<le> 10)
   \<and> (\<forall>hit calls w'. updateIfColliding w item1 item2 0 = Some (hit, calls, w') \<longrightarrow> calls \<le> 20)
   \<and> updateIfColliding w item1 item2 20 =
       (let A = (if speed (w ! item1) \<ge> speed (w ! item2) then item1 else item2);
            B = (if A = item1 then item2 else item1)
        in Option.bind (getDistanceToIntersection w A B)
             (\<lambda>(d, w1). if d > 0
                         then Option.bind (updateForCollision w1 A B d) (\<lambda>w2. Some (True, 1, w2))
                         else Some (False, 1, w1)))"
proof -
  have 1: "passes \<le> 10" if "collisionLoop w 0 = Some (stepped, passes, w')" for stepped passes w' w
    using collisionLoop_passes[OF that] by simp
  have 2: "calls \<le> 20" if "updateIfColliding w item1 item2 0 = Some (hit, calls, w')" for hit calls w'
    using updateIfColliding_calls[OF that] by simp
  have 3: "(\<exists>r W'. tick W = Some (r, W')) \<and>
      (\<exists>passes w'. collisionLoop (resetItems (items W)) 0 = Some (False, passes, w')
          \<and> passes \<le> 10)"
    if wf: "list_all wf_item (items W)" and ok: "list_all curve_ok (items W)"
  proof -
    from tick_defined[OF wf ok] have a: "\<exists>r W'. tick W = Some (r, W')" by blast
    from collisionLoop_total[OF resetItems_inv[OF wf] resetItems_curve_ok[OF ok], of 0]
    obtain passes w' where
      l: "collisionLoop (resetItems (items W)) 0 = Some (False, passes, w')" by blast
    from 1[OF l] l a show ?thesis by blast
  qed
  have 4: "\<exists>hit calls w'. updateIfColliding w item1 item2 0 = Some (hit, calls, w') \<and> calls \<le> 20"
    if "list_all inv_item w" "list_all curve_ok w" "item1 < length w" "item2 < length w"
  proof -
    from updateIfColliding_total[OF that, of 0] obtain hit calls w' where
      u: "updateIfColliding w item1 item2 0 = Some (hit, calls, w')" by blast
    from 2[OF u] u show ?thesis by blast
  qed
  from 1 2 3 4 updateIfColliding_last_attempt[of w item1 item2] show ?thesis by blast
qed

text \<open>Claim C8 on the stones above: two passes; one call, and two with a lookahead.\<close>

theorem C8_witness:
  "list_all wf_item (items twoStones) \<and> list_all curve_ok (items twoStones)
   \<and> tick twoStones = Some (True, \<lparr>items = [fastHit', smallMoved], lastFinished = True\<rparr>)
   \<and> collisionLoop [fastStone, smallStone] 0 = Some (False, 2, [fastHit', smallHit'])
   \<and> (2 :: nat) \<le> 10
   \<and> updateIfColliding [fastStone, smallStone] 0 1 0 = Some (True, 1, [fastHit, smallHit])
   \<and> updateIfColliding [fastStone, smallStone, thirdStone] 0 1 0 =
       Some (True, 2, [fastGlanced, smallStone', thirdHit])
   \<and> (2 :: nat) \<le> 20"
  using C8_bounded_tick[of twoStones "[fastStone, smallStone, thirdStone]" 0 1] two_stones_loop
    fast_small_collide three_collide two_stones_wf two_stones_curve_ok two_stones_tick
  by simp

section \<open>A shot without curve on a cached position\<close>

text \<open>
  \<^verbatim>\<open>getNextCurvePos\<close> returns the cached position when there is one. As long as the
  cached position belongs to the shot, a shot of curve \<open>0\<close> stays on its line.
\<close>

lemma onCourse_frame [simp]:
  "onCourse (it\<lparr>cache := c\<rparr>) p = onCourse it p"
  "onCourse (it\<lparr>course := k\<rparr>) p = onCourse it p"
  "onCourse (it\<lparr>speed := v\<rparr>) p = onCourse it p"
  "onCourse (it\<lparr>unused := u\<rparr>) p = onCourse it p"
  "onCourse (it\<lparr>shotTraveled := t\<rparr>) p = onCourse it p"
  "onCourse (setPos it x y) p = onCourse it p"
  by (simp_all add: onCourse_def setPos_def)

lemma cacheOnCourse_frame [simp]:
  "cacheOnCourse (it\<lparr>course := k\<rparr>) = cacheOnCourse it"
  "cacheOnCourse (it\<lparr>speed := v\<rparr>) = cacheOnCourse it"
  "cacheOnCourse (it\<lparr>unused := u\<rparr>) = cacheOnCourse it"
  "cacheOnCourse (it\<lparr>shotTraveled := t\<rparr>) = cacheOnCourse it"
  "cacheOnCourse (setPos it x y)"
  by (simp_all add: cacheOnCourse_def onCourse_def setPos_def emptyCache_def split: option.splits)

lemma getNextCurvePos_onCourse:
  assumes c: "shotCurve it = Curve 0" and k: "cacheOnCourse it"
      and g: "getNextCurvePos it = Some (p, it')"
  shows "onCourse it p \<and> cacheOnCourse it' \<and> nextCurvePos (cache it') = Some p"
proof (cases "nextCurvePos (cache it)")
  case (Some q)
  with g have "p = q" "it' = it" by (simp_all add: getNextCurvePos_def)
  with k Some show ?thesis by (simp add: cacheOnCourse_def)
next
  case None
  with g have cp: "computeNextCurvePos it = Some p" and
    it': "it' = it\<lparr>cache := (cache it)\<lparr>nextCurvePos := Some p\<rparr>\<rparr>"
    by (auto simp: getNextCurvePos_def split: Option.bind_splits)
  from computeNextCurvePos_no_curve[OF c cp] have "onCourse it p"
    unfolding onCourse_def by blast
  then show ?thesis by (simp add: it' cacheOnCourse_def onCourse_def)
qed

lemma getNextPos_onCourse:
  assumes c: "shotCurve it = Curve 0" and k: "cacheOnCourse it"
      and g: "getNextPos it = Some (p, it')"
  shows "cacheOnCourse it'"
proof (cases "nextPos (cache it)")
  case (Some q)
  with g have "it' = it" by (simp add: getNextPos_def)
  with k show ?thesis by simp
next
  case None
  with g c obtain q it1 where n: "getNextCurvePos it = Some (q, it1)" and
    it': "it' = it1\<lparr>cache := (cache it1)\<lparr>nextPos := Some p\<rparr>\<rparr>"
    by (auto simp: getNextPos_def split: Option.bind_splits)
  from getNextCurvePos_onCourse[OF c k n] have k1: "cacheOnCourse it1" by simp
  from getNextCurvePos_frame[OF n] obtain c0 where "it1 = it\<lparr>cache := c0\<rparr>" by blast
  with k1 show ?thesis by (auto simp: it' cacheOnCourse_def split: option.splits)
qed

text \<open>
  On a shot of curve \<open>0\<close> whose cached next position, if there is one, lies on the line
  of the shot, \<^verbatim>\<open>applyPhysics\<close> moves the item to a point of that line, and the cache
  it leaves is on the line again.
\<close>

lemma applyPhysicsItem_onCourse:
  assumes c: "shotCurve it = Curve 0" and k: "cacheOnCourse it"
      and m: "speed it \<noteq> 0 \<and> unused it \<noteq> 0"
      and a: "applyPhysicsItem it = Some it'"
  shows "onCourse it (pos_x it', pos_y it') \<and> cacheOnCourse it' \<and> shotCurve it' = Curve 0
         \<and> shotCourse it' = shotCourse it \<and> shotOriginX it' = shotOriginX it
         \<and> shotOriginY it' = shotOriginY it"
proof -
  from a m c obtain obj it0 where g: "getNextCurvePos it = Some (obj, it0)"
    by (auto simp: applyPhysicsItem_def split: Option.bind_splits)
  from getNextCurvePos_onCourse[OF c k g] have on: "onCourse it obj" by simp
  from getNextCurvePos_frame[OF g] obtain c0 where it0: "it0 = it\<lparr>cache := c0\<rparr>" by blast
  define it2 where "it2 = (setPos it0 (fst obj) (snd obj))
     \<lparr>shotTraveled := shotTraveled (setPos it0 (fst obj) (snd obj))
        + speed (setPos it0 (fst obj) (snd obj))\<rparr>"
  have c2: "shotCurve it2 = Curve 0" by (simp add: it2_def it0 setPos_def c)
  have k2: "cacheOnCourse it2" by (simp add: it2_def)
  from a m c g obtain cr it1 where gc: "getCourseToNextPositionOnCurve it2 = Some (cr, it1)"
    unfolding applyPhysicsItem_def Let_def it2_def
    by (auto simp: setPos_def it0 split: Option.bind_splits)
  then obtain p where np: "getNextPos it2 = Some (p, it1)"
    by (auto simp: getCourseToNextPositionOnCurve_def split: Option.bind_splits)
  from getNextPos_onCourse[OF c2 k2 np] have k1: "cacheOnCourse it1" .
  from getNextPos_frame[OF np] obtain c1 where it1: "it1 = it2\<lparr>cache := c1\<rparr>" by blast
  define it3 where "it3 = it1\<lparr>course := cr\<rparr>"
  have eq: "it' = (if speed it3 * friction it3 < stopSpeed
               then it3\<lparr>speed := speed it3 * friction it3, speed := 0\<rparr>
               else it3\<lparr>speed := speed it3 * friction it3\<rparr>)\<lparr>unused := 0\<rparr>"
    using a m c g gc unfolding applyPhysicsItem_def Let_def it2_def it3_def
    by (simp add: setPos_def it0)
  have f3: "pos_x it3 = fst obj" "pos_y it3 = snd obj" "shotCurve it3 = Curve 0"
    "shotCourse it3 = shotCourse it" "shotOriginX it3 = shotOriginX it"
    "shotOriginY it3 = shotOriginY it"
    by (simp_all add: it3_def it1 it2_def it0 setPos_def c)
  have k3: "cacheOnCourse it3" using k1 by (simp add: it3_def)
  show ?thesis unfolding eq using f3 k3 on by simp
qed

text \<open>\<^verbatim>\<open>push\<close> of an item that holds no cached next position.\<close>

lemma push_onCourse:
  assumes n: "nextCurvePos (cache it) = None"
      and p: "push it course0 speed0 (Curve 0) = Some it'" and s: "speed0 \<noteq> 0"
  shows "cacheOnCourse it' \<and> shotCurve it' = Curve 0 \<and> shotCourse it' = course0
         \<and> shotOriginX it' = pos_x it \<and> shotOriginY it' = pos_y it"
proof -
  from p s obtain distance where d: "distanceToTravel (min speed0 maxSpeed) (friction it) = Some distance"
    by (auto simp: push_def Let_def split: Option.bind_splits)
  define it1 where "it1 = it\<lparr>speed := min speed0 maxSpeed,
                       shotCourse := course0 + (curveNumber (Curve 0) * (pi / 2)),
                       shotCurve := Curve 0,
                       shotOriginX := pos_x it,
                       shotOriginY := pos_y it,
                       shotTraveled := 0,
                       shotDistance := distance\<rparr>"
  from p s d obtain c it2 where
    g: "getCourseToNextPositionOnCurve it1 = Some (c, it2)" and it': "it' = it2\<lparr>course := c\<rparr>"
    unfolding push_def Let_def it1_def by (auto split: Option.bind_splits)
  from g obtain q where np: "getNextPos it1 = Some (q, it2)"
    by (auto simp: getCourseToNextPositionOnCurve_def split: Option.bind_splits)
  have c1: "shotCurve it1 = Curve 0" by (simp add: it1_def)
  have k1: "cacheOnCourse it1" using n by (simp add: it1_def cacheOnCourse_def)
  from getNextPos_onCourse[OF c1 k1 np] have k2: "cacheOnCourse it2" .
  from getNextPos_frame[OF np] obtain c2 where it2: "it2 = it1\<lparr>cache := c2\<rparr>" by blast
  show ?thesis using k2 by (simp add: it' it2 it1_def curveNumber_def)
qed

text \<open>
  \<^verbatim>\<open>push\<close> does not delete the cache, as \<^verbatim>\<open>setPos\<close> does. The stone pushed along the
  course \<open>0\<close> holds the next position \<open>(4, 0)\<close> of that shot; pushed again along the
  course \<open>\<pi>/2\<close> it still holds it.
\<close>

lemma repush_stone: "push pushedStone (pi / 2) 4 (Curve 0) = Some repushedStone"
proof -
  have d: "distanceToTravel 4 (9 / 10) = Some (3991 / 100)"
    using distanceToTravel_closed[of "9 / 10" 4] by (simp add: closedForm_def stopSpeed_def)
  let ?it1 = "pushedStone\<lparr>speed := 4, shotCourse := pi / 2, shotCurve := Curve 0,
      shotOriginX := 0, shotOriginY := 0, shotTraveled := 0, shotDistance := 3991 / 100\<rparr>"
  have n: "getNextPos ?it1 = Some ((4, 0), ?it1)"
    by (simp add: getNextPos_def pushedStone_def newItem_def)
  have c: "getCourseToNextPositionOnCurve ?it1 = Some (0, ?it1)"
    unfolding getCourseToNextPositionOnCurve_def n
    by (simp add: getCourse_def atan2_def pushedStone_def newItem_def)
  have f: "friction pushedStone = 9 / 10" "pos_x pushedStone = 0" "pos_y pushedStone = 0"
    by (simp_all add: pushedStone_def newItem_def)
  show ?thesis
    unfolding push_def Let_def f
    by (simp add: maxSpeed_def d curveNumber_def c)
       (simp add: repushedStone_def pushedStone_def newItem_def)
qed

lemma repushed_next:
  "getNextCurvePos repushedStone = Some ((4, 0), repushedStone)"
  by (simp add: getNextCurvePos_def repushedStone_def pushedStone_def newItem_def)

lemma upt_1: "[0..<Suc 0] = [0]"
  by simp

lemma repushed_pass:
  "collisionStep [repushedStone\<lparr>unused := 1\<rparr>] = Some (False, [repushedStone\<lparr>unused := 1\<rparr>])"
  by (simp add: collisionStep_def orderByDistance_def repushedStone_def pushedStone_def newItem_def)

lemma repushed_loop:
  "collisionLoop [repushedStone\<lparr>unused := 1\<rparr>] 0 = Some (False, 1, [repushedStone\<lparr>unused := 1\<rparr>])"
  by (simp add: collisionLoop.simps[of _ 0] repushed_pass stepCollisions_def)

lemma repushed_physics_item: "applyPhysicsItem (repushedStone\<lparr>unused := 1\<rparr>) = Some repushedMoved"
proof -
  let ?it0 = "repushedStone\<lparr>unused := 1\<rparr>"
  let ?it2 = "(setPos ?it0 4 0)\<lparr>shotTraveled := 4\<rparr>"
  have "computeNextCurvePos ?it2 = Some (0, 8)"
    using curve_free_next[of ?it2]
    by (simp add: setPos_def repushedStone_def pushedStone_def newItem_def)
  then have n: "getNextPos ?it2 = Some ((0, 8),
      ?it2\<lparr>cache := \<lparr>stepDistance = None, nextPos = Some (0, 8), nextCurvePos = Some (0, 8)\<rparr>\<rparr>)"
    by (simp add: getNextPos_def getNextCurvePos_def setPos_def emptyCache_def
        repushedStone_def pushedStone_def newItem_def)
  have c: "getCourseToNextPositionOnCurve ?it2 = Some (getCourse 9 5 5 13,
      ?it2\<lparr>cache := \<lparr>stepDistance = None, nextPos = Some (0, 8), nextCurvePos = Some (0, 8)\<rparr>\<rparr>)"
    unfolding getCourseToNextPositionOnCurve_def n
    by (simp add: setPos_def repushedStone_def pushedStone_def newItem_def)
  have g: "getNextCurvePos ?it0 = Some ((4, 0), ?it0)"
    by (simp add: getNextCurvePos_def repushedStone_def pushedStone_def newItem_def)
  have f: "speed ?it0 \<noteq> 0 \<and> unused ?it0 \<noteq> 0" "shotCurve ?it0 \<noteq> NoCurve"
    "shotTraveled (setPos ?it0 4 0) + speed (setPos ?it0 4 0) = 4"
    "shotCurve ?it2 \<noteq> NoCurve"
    by (simp_all add: setPos_def repushedStone_def pushedStone_def newItem_def)
  show ?thesis
    unfolding applyPhysicsItem_def Let_def
    by (simp add: f g c)
       (simp add: stopSpeed_def repushedMoved_def setPos_def repushedStone_def pushedStone_def
          newItem_def)
qed

lemma repushed_tick:
  "tick repushedWorld = Some (True, \<lparr>items = [repushedMoved], lastFinished = True\<rparr>)"
proof -
  have "speed repushedMoved \<noteq> 0" by (simp add: repushedMoved_def)
  then show ?thesis
    by (simp add: tick_def repushedWorld_def stepCollisions_def resetItems_def repushed_loop
        applyPhysics_def repushed_physics_item)
qed

lemma off_the_line: "(4 :: real, 0 :: real) \<noteq> (0 + cos (pi / 2) * r, 0 + sin (pi / 2) * r)"
  by simp

text \<open>
  The same on a stone that is moving: after the tick above the stone is at \<open>(4, 0)\<close> and
  holds the next position \<open>(8, 0)\<close>. Pushed again along the course \<open>\<pi>/2\<close> it starts a
  shot at \<open>(4, 0)\<close> and still holds \<open>(8, 0)\<close>.
\<close>

lemma repush_moving_stone:
  "push pushedMoved (pi / 2) 4 (Curve 0) =
     Some (pushedMoved\<lparr>speed := 4, shotCourse := pi / 2, shotOriginX := 4, shotTraveled := 0\<rparr>)"
  "getNextCurvePos (pushedMoved\<lparr>speed := 4, shotCourse := pi / 2, shotOriginX := 4,
     shotTraveled := 0\<rparr>) =
     Some ((8, 0), pushedMoved\<lparr>speed := 4, shotCourse := pi / 2, shotOriginX := 4,
       shotTraveled := 0\<rparr>)"
  "\<not> onCourse (pushedMoved\<lparr>speed := 4, shotCourse := pi / 2, shotOriginX := 4,
     shotTraveled := 0\<rparr>) (8, 0)"
proof -
  have d: "distanceToTravel 4 (9 / 10) = Some (3991 / 100)"
    using distanceToTravel_closed[of "9 / 10" 4] by (simp add: closedForm_def stopSpeed_def)
  let ?it1 = "pushedMoved\<lparr>speed := 4, shotCourse := pi / 2, shotCurve := Curve 0,
      shotOriginX := 4, shotOriginY := 0, shotTraveled := 0, shotDistance := 3991 / 100\<rparr>"
  have n: "getNextPos ?it1 = Some ((8, 0), ?it1)"
    by (simp add: getNextPos_def pushedMoved_def pushedStone_def newItem_def)
  have c: "getCourseToNextPositionOnCurve ?it1 = Some (0, ?it1)"
    unfolding getCourseToNextPositionOnCurve_def n
    by (simp add: getCourse_def atan2_def pushedMoved_def pushedStone_def newItem_def)
  have f: "friction pushedMoved = 9 / 10" "pos_x pushedMoved = 4" "pos_y pushedMoved = 0"
    by (simp_all add: pushedMoved_def pushedStone_def newItem_def)
  show "push pushedMoved (pi / 2) 4 (Curve 0) =
     Some (pushedMoved\<lparr>speed := 4, shotCourse := pi / 2, shotOriginX := 4, shotTraveled := 0\<rparr>)"
    unfolding push_def Let_def f
    by (simp add: maxSpeed_def d curveNumber_def c)
       (simp add: pushedMoved_def pushedStone_def newItem_def)
  show "getNextCurvePos (pushedMoved\<lparr>speed := 4, shotCourse := pi / 2, shotOriginX := 4,
     shotTraveled := 0\<rparr>) =
     Some ((8, 0), pushedMoved\<lparr>speed := 4, shotCourse := pi / 2, shotOriginX := 4,
       shotTraveled := 0\<rparr>)"
    by (simp add: getNextCurvePos_def pushedMoved_def pushedStone_def newItem_def)
  show "\<not> onCourse (pushedMoved\<lparr>speed := 4, shotCourse := pi / 2, shotOriginX := 4,
     shotTraveled := 0\<rparr>) (8, 0)"
    by (simp add: onCourse_def pushedMoved_def pushedStone_def newItem_def)
qed

text \<open>
  Claim C7 says that with \<^verbatim>\<open>shotCurve = 0\<close> the lateral offset \<^verbatim>\<open>realY\<close> is \<open>0\<close> and the
  next position of the curve lies on the straight line from the origin of the shot along
  \<^verbatim>\<open>shotCourse\<close>. A new stone is pushed at speed 4 along the course \<open>0\<close> and then, before
  any tick, along the course \<open>\<pi>/2\<close>. Its shot then starts at \<open>(0, 0)\<close> with
  \<^verbatim>\<open>shotCourse\<close> \<open>\<pi>/2\<close> and curve \<open>0\<close>, and \<^verbatim>\<open>realY\<close> is \<open>0\<close>; but \<^verbatim>\<open>getNextCurvePos\<close>
  returns the position \<open>(4, 0)\<close> cached for the first shot, which is not on that line,
  \<^verbatim>\<open>push\<close> sets the course \<open>0\<close> from it, and \<^verbatim>\<open>tick\<close> moves the stone to \<open>(4, 0)\<close>.
\<close>

theorem C7_stale_position_off_course:
  "push (newItem 0 0 5 1) 0 4 (Curve 0) = Some pushedStone
   \<and> push pushedStone (pi / 2) 4 (Curve 0) = Some repushedStone
   \<and> shotCurve repushedStone = Curve 0 \<and> shotCourse repushedStone = pi / 2
   \<and> shotOriginX repushedStone = 0 \<and> shotOriginY repushedStone = 0
   \<and> (\<forall>x. realY repushedStone x = 0)
   \<and> getNextCurvePos repushedStone = Some ((4, 0), repushedStone)
   \<and> \<not> onCourse repushedStone (4, 0)
   \<and> course repushedStone = 0
   \<and> tick repushedWorld = Some (True, \<lparr>items = [repushedMoved], lastFinished = True\<rparr>)
   \<and> pos_x repushedMoved = 4 \<and> pos_y repushedMoved = 0"
proof -
  have f: "shotCurve repushedStone = Curve 0" "shotCourse repushedStone = pi / 2"
    "shotOriginX repushedStone = 0" "shotOriginY repushedStone = 0" "course repushedStone = 0"
    "pos_x repushedMoved = 4" "pos_y repushedMoved = 0"
    by (simp_all add: repushedMoved_def repushedStone_def pushedStone_def newItem_def)
  have y: "\<forall>x. realY repushedStone x = 0" using realY_no_curve[OF f(1)] by simp
  have n: "\<not> onCourse repushedStone (4, 0)" by (simp add: onCourse_def f)
  from push_stone repush_stone f y repushed_next n repushed_tick show ?thesis by simp
qed

text \<open>The stone after the tick is not on the line of its shot.\<close>

theorem C7_witness:
  "\<not> onCourse repushedStone (pos_x repushedMoved, pos_y repushedMoved)"
  using C7_stale_position_off_course by simp

section \<open>A pass over a stone that lies on another\<close>

text \<open>
  The tests of a pass are those of \<^verbatim>\<open>testOrdered\<close>: they are made in the order of the
  list, each on the items as the test before left them, up to the first that confirms a
  collision; the items behind it are not tested.
\<close>

lemma testOrdered_no_hit:
  "testOrdered w source cs = Some (False, w') \<longleftrightarrow> testsMissing w source cs = Some w'"
proof (induction cs arbitrary: w)
  case Nil
  show ?case by auto
next
  case (Cons c cs)
  show ?case
  proof (cases "updateIfColliding w source c 0")
    case None
    then show ?thesis by simp
  next
    case (Some r)
    obtain hit calls w1 where r: "r = (hit, calls, w1)" by (cases r)
    show ?thesis using Cons.IH[of w1] by (simp add: Some r)
  qed
qed

lemma testOrdered_first_hit:
  "testOrdered w source cs = Some (True, w') \<longleftrightarrow>
     (\<exists>pre c post wk calls. cs = pre @ c # post \<and> testsMissing w source pre = Some wk
        \<and> updateIfColliding wk source c 0 = Some (True, calls, w'))"
proof (induction cs arbitrary: w)
  case Nil
  show ?case by simp
next
  case (Cons d cs)
  show ?case
  proof (cases "updateIfColliding w source d 0")
    case None
    have "\<not> (\<exists>pre c post wk calls. d # cs = pre @ c # post \<and> testsMissing w source pre = Some wk
        \<and> updateIfColliding wk source c 0 = Some (True, calls, w'))"
    proof
      assume "\<exists>pre c post wk calls. d # cs = pre @ c # post \<and> testsMissing w source pre = Some wk
        \<and> updateIfColliding wk source c 0 = Some (True, calls, w')"
      then obtain pre c post wk calls where
        e: "d # cs = pre @ c # post" and m: "testsMissing w source pre = Some wk" and
        u: "updateIfColliding wk source c 0 = Some (True, calls, w')" by blast
      show False
      proof (cases pre)
        case Nil
        with e m u None show False by simp
      next
        case (Cons x xs)
        with e m None show False by simp
      qed
    qed
    with None show ?thesis by simp
  next
    case (Some r)
    obtain hit calls1 w1 where r: "r = (hit, calls1, w1)" by (cases r)
    show ?thesis
    proof (cases hit)
      case True
      have l: "testOrdered w source (d # cs) = Some (True, w') \<longleftrightarrow> w1 = w'"
        by (simp add: Some r True)
      have "(\<exists>pre c post wk calls. d # cs = pre @ c # post \<and> testsMissing w source pre = Some wk
          \<and> updateIfColliding wk source c 0 = Some (True, calls, w')) \<longleftrightarrow> w1 = w'"
      proof
        assume "\<exists>pre c post wk calls. d # cs = pre @ c # post
          \<and> testsMissing w source pre = Some wk
          \<and> updateIfColliding wk source c 0 = Some (True, calls, w')"
        then obtain pre c post wk calls where
          e: "d # cs = pre @ c # post" and m: "testsMissing w source pre = Some wk" and
          u: "updateIfColliding wk source c 0 = Some (True, calls, w')" by blast
        show "w1 = w'"
        proof (cases pre)
          case Nil
          with e m u Some r show ?thesis by simp
        next
          case (Cons x xs)
          with e m Some r True show ?thesis by simp
        qed
      next
        assume "w1 = w'"
        then have "d # cs = [] @ d # cs \<and> testsMissing w source [] = Some w
          \<and> updateIfColliding w source d 0 = Some (True, calls1, w')"
          using Some r True by simp
        then show "\<exists>pre c post wk calls. d # cs = pre @ c # post
          \<and> testsMissing w source pre = Some wk
          \<and> updateIfColliding wk source c 0 = Some (True, calls, w')" by blast
      qed
      with l show ?thesis by simp
    next
      case False
      have l: "testOrdered w source (d # cs) = testOrdered w1 source cs"
        by (simp add: Some r False)
      have "(\<exists>pre c post wk calls. d # cs = pre @ c # post \<and> testsMissing w source pre = Some wk
          \<and> updateIfColliding wk source c 0 = Some (True, calls, w')) \<longleftrightarrow>
        (\<exists>pre c post wk calls. cs = pre @ c # post \<and> testsMissing w1 source pre = Some wk
          \<and> updateIfColliding wk source c 0 = Some (True, calls, w'))"
      proof
        assume "\<exists>pre c post wk calls. d # cs = pre @ c # post
          \<and> testsMissing w source pre = Some wk
          \<and> updateIfColliding wk source c 0 = Some (True, calls, w')"
        then obtain pre c post wk calls where
          e: "d # cs = pre @ c # post" and m: "testsMissing w source pre = Some wk" and
          u: "updateIfColliding wk source c 0 = Some (True, calls, w')" by blast
        show "\<exists>pre c post wk calls. cs = pre @ c # post \<and> testsMissing w1 source pre = Some wk
          \<and> updateIfColliding wk source c 0 = Some (True, calls, w')"
        proof (cases pre)
          case Nil
          with e m u Some r False show ?thesis by simp
        next
          case (Cons x xs)
          with e have x: "x = d" and cs: "cs = xs @ c # post" by simp_all
          from m have "testsMissing w1 source xs = Some wk"
            by (simp add: Cons x Some r False)
          with cs u show ?thesis by blast
        qed
      next
        assume "\<exists>pre c post wk calls. cs = pre @ c # post \<and> testsMissing w1 source pre = Some wk
          \<and> updateIfColliding wk source c 0 = Some (True, calls, w')"
        then obtain pre c post wk calls where
          e: "cs = pre @ c # post" and m: "testsMissing w1 source pre = Some wk" and
          u: "updateIfColliding wk source c 0 = Some (True, calls, w')" by blast
        have "d # cs = (d # pre) @ c # post" using e by simp
        moreover have "testsMissing w source (d # pre) = Some wk"
          using m by (simp add: Some r False)
        ultimately show "\<exists>pre c post wk calls. d # cs = pre @ c # post
          \<and> testsMissing w source pre = Some wk
          \<and> updateIfColliding wk source c 0 = Some (True, calls, w')"
          using u by blast
      qed
      with l Cons.IH[of w1] show ?thesis by simp
    qed
  qed
qed

text \<open>
  A moving stone whose centre is the centre of a stone registered before it: the stable
  sort leaves that stone first, so \<^verbatim>\<open>ordered[1]\<close> is the moving stone itself.
\<close>

lemmas covered_defs = coveredStone_def movingStone_def farStone_def coveredStone'_def
  movingStone'_def farStone'_def newItem_def emptyCache_def

lemma upt_3: "[0..<3] = [0, Suc 0, Suc (Suc 0)]"
  by (simp add: upt_rec)

lemma covered_step:
  "getStepDistance coveredStone = Some (0, coveredStone')"
  "getStepDistance movingStone = Some (4, movingStone')"
  "getStepDistance movingStone' = Some (4, movingStone')"
  "getStepDistance farStone = Some (0, farStone')"
  by (simp_all add: getStepDistance_def truthy_def covered_defs)

lemma covered_speeds:
  "speed coveredStone = 0" "speed movingStone = 4" "speed farStone = 0"
  "unused movingStone = 1" "speed coveredStone' = 0" "speed movingStone' = 4"
  "speed farStone' = 0" "unused movingStone' = 1"
  by (simp_all add: covered_defs)

lemma covered_distances:
  "distanceBetween movingStone coveredStone = 0"
  "distanceBetween movingStone movingStone = 0"
  "distanceBetween movingStone farStone = 20"
  by (simp_all add: distanceBetween_def abcSquare_axis covered_defs)

lemma covered_order:
  "orderByDistance [coveredStone, movingStone, farStone] [0, Suc 0, Suc (Suc 0)] (Suc 0) = [0, Suc 0, Suc (Suc 0)]"
  by (simp add: orderByDistance_def covered_distances)

lemma reversed_order:
  "orderByDistance [movingStone, coveredStone, farStone] [0, Suc 0, Suc (Suc 0)] 0 = [0, Suc 0, Suc (Suc 0)]"
  by (simp add: orderByDistance_def covered_distances)

lemma moving_self_sweep: "sweepDistance movingStone movingStone 4 4 = Some (- 1)"
  by (rule sweepDistance_nonpos_disc)
     (simp add: discriminant_def sweep_a_def sweep_b_def sweep_dx_def sweep_dy_def)

lemma moving_covered_sweep: "sweepDistance movingStone coveredStone 4 0 = Some (- 1)"
proof -
  have a: "sweep_a movingStone coveredStone 4 0 = 16"
    by (simp add: sweep_a_def sweep_dx_def sweep_dy_def covered_defs)
  have b: "sweep_b movingStone coveredStone 4 0 = 0"
    by (simp add: sweep_b_def sweep_dx_def sweep_dy_def sweep_fx_def sweep_fy_def covered_defs)
  have c: "sweep_c movingStone coveredStone = - 100"
    by (simp add: sweep_c_def sweep_fx_def sweep_fy_def covered_defs)
  have d: "discriminant movingStone coveredStone 4 0 = 6400"
    by (simp add: discriminant_def a b c)
  have "root1 movingStone coveredStone 4 0 = 5 / 2" "root2 movingStone coveredStone 4 0 = - (5 / 2)"
    by (simp_all add: root1_def root2_def d a b sqrt_6400)
  then show ?thesis by (simp add: sweepDistance_pos_disc d)
qed

lemma moving_far_sweep: "sweepDistance movingStone farStone 4 0 = Some (- 1)"
proof -
  have a: "sweep_a movingStone farStone 4 0 = 16"
    by (simp add: sweep_a_def sweep_dx_def sweep_dy_def covered_defs)
  have b: "sweep_b movingStone farStone 4 0 = - 160"
    by (simp add: sweep_b_def sweep_dx_def sweep_dy_def sweep_fx_def sweep_fy_def covered_defs)
  have c: "sweep_c movingStone farStone = 300"
    by (simp add: sweep_c_def sweep_fx_def sweep_fy_def covered_defs)
  have d: "discriminant movingStone farStone 4 0 = 6400"
    by (simp add: discriminant_def a b c)
  have "root1 movingStone farStone 4 0 = 15 / 2" "root2 movingStone farStone 4 0 = 5 / 2"
    by (simp_all add: root1_def root2_def d a b sqrt_6400)
  then show ?thesis by (simp add: sweepDistance_pos_disc d)
qed

lemma moving_sweep_filled:
  "sweepDistance movingStone' B sA sB = sweepDistance movingStone B sA sB"
  by (simp add: movingStone'_def sweepDistance_def discriminant_def sweep_a_def sweep_b_def
      sweep_c_def)

text \<open>The test of the moving stone against itself.\<close>

lemma covered_self_test:
  "updateIfColliding [coveredStone, movingStone, farStone] (Suc 0) (Suc 0) 0 =
     Some (False, 1, [coveredStone, movingStone', farStone])"
proof -
  have "getDistanceToIntersection [coveredStone, movingStone, farStone] (Suc 0) (Suc 0) =
      Some (- 1, [coveredStone, movingStone', farStone])"
    using getDistanceToIntersection_eq[of "Suc 0" "[coveredStone, movingStone, farStone]" "Suc 0"
        4 movingStone' 4 movingStone']
    by (simp add: covered_step moving_self_sweep)
  then show ?thesis
    by (simp add: updateIfColliding.simps[of "[coveredStone, movingStone, farStone]"] Let_def)
qed

text \<open>The test against the far stone, after the test above.\<close>

lemma covered_far_test:
  "updateIfColliding [x, movingStone', farStone] (Suc 0) (Suc (Suc 0)) 0 =
     Some (False, 1, [x, movingStone', farStone'])"
proof -
  have "getDistanceToIntersection [x, movingStone', farStone] (Suc 0) (Suc (Suc 0)) =
      Some (- 1, [x, movingStone', farStone'])"
    using getDistanceToIntersection_eq[of "Suc 0" "[x, movingStone', farStone]" "Suc (Suc 0)"
        4 movingStone' 0 farStone']
    by (simp add: covered_step moving_sweep_filled moving_far_sweep)
  then show ?thesis
    by (simp add: updateIfColliding.simps[of "[x, movingStone', farStone]"] Let_def
        covered_speeds)
qed

text \<open>The test that is not made: the moving stone against the stone it covers.\<close>

lemma covered_other_test:
  "updateIfColliding [coveredStone, movingStone, farStone] (Suc 0) 0 0 =
     Some (False, 1, [coveredStone', movingStone', farStone])"
proof -
  have "getDistanceToIntersection [coveredStone, movingStone, farStone] (Suc 0) 0 =
      Some (- 1, [coveredStone', movingStone', farStone])"
    using getDistanceToIntersection_eq[of "Suc 0" "[coveredStone, movingStone, farStone]" 0
        4 movingStone' 0 coveredStone']
    by (simp add: covered_step moving_covered_sweep)
  then show ?thesis
    by (simp add: updateIfColliding.simps[of "[coveredStone, movingStone, farStone]"] Let_def
        covered_speeds)
qed

lemma covered_tests:
  "testOrdered [coveredStone, movingStone, farStone] (Suc 0) [Suc 0, Suc (Suc 0)] =
     Some (False, [coveredStone, movingStone', farStone'])"
  by (simp add: covered_self_test covered_far_test)

text \<open>The tests of the two other stones, the nearer first.\<close>

lemma covered_tests_others:
  "testOrdered [coveredStone, movingStone, farStone] (Suc 0) [0, Suc (Suc 0)] =
     Some (False, [coveredStone', movingStone', farStone'])"
  by (simp add: covered_other_test covered_far_test)

lemma covered_filled: "coveredStone \<noteq> coveredStone'"
proof
  assume "coveredStone = coveredStone'"
  then have "cache coveredStone = cache coveredStone'" by simp
  then show False by (simp add: covered_defs)
qed

lemma covered_pass:
  "collisionStep [coveredStone, movingStone, farStone] =
     Some (False, [coveredStone, movingStone', farStone'])"
  by (simp add: collisionStep_def upt_3 covered_speeds covered_order covered_self_test
      covered_far_test)

text \<open>The same three stones with the moving stone registered first.\<close>

lemma reversed_covered_test:
  "updateIfColliding [movingStone, coveredStone, farStone] 0 (Suc 0) 0 =
     Some (False, 1, [movingStone', coveredStone', farStone])"
proof -
  have "getDistanceToIntersection [movingStone, coveredStone, farStone] 0 (Suc 0) =
      Some (- 1, [movingStone', coveredStone', farStone])"
    using getDistanceToIntersection_eq[of 0 "[movingStone, coveredStone, farStone]" "Suc 0"
        4 movingStone' 0 coveredStone']
    by (simp add: covered_step moving_covered_sweep)
  then show ?thesis
    by (simp add: updateIfColliding.simps[of "[movingStone, coveredStone, farStone]"] Let_def
        covered_speeds)
qed

lemma reversed_far_test:
  "updateIfColliding [movingStone', coveredStone', farStone] 0 (Suc (Suc 0)) 0 =
     Some (False, 1, [movingStone', coveredStone', farStone'])"
proof -
  have "getDistanceToIntersection [movingStone', coveredStone', farStone] 0 (Suc (Suc 0)) =
      Some (- 1, [movingStone', coveredStone', farStone'])"
    using getDistanceToIntersection_eq[of 0 "[movingStone', coveredStone', farStone]"
        "Suc (Suc 0)" 4 movingStone' 0 farStone']
    by (simp add: covered_step moving_sweep_filled moving_far_sweep)
  then show ?thesis
    by (simp add: updateIfColliding.simps[of "[movingStone', coveredStone', farStone]"] Let_def
        covered_speeds)
qed

lemma reversed_pass:
  "collisionStep [movingStone, coveredStone, farStone] =
     Some (False, [movingStone', coveredStone', farStone'])"
  by (simp add: collisionStep_def upt_3 covered_speeds reversed_order reversed_covered_test
      reversed_far_test)

text \<open>
  Claim C9 says that a pass tests the other items in ascending order of their distance
  to the moving item, whatever the order of registration. Of three stones the second
  moves (speed 4, unused 1) and is at the distance \<open>0\<close> from the first and \<open>20\<close> from the
  third. The pass tests it against \<^verbatim>\<open>ordered[1]\<close> and \<^verbatim>\<open>ordered[2]\<close>, which are the moving
  stone itself and the third stone: the nearest other stone is not tested, and its cache
  stays empty, while the tests of the two other stones in ascending order fill it. With
  the moving stone registered first, the pass does test the two other stones.
\<close>

theorem C9_covered_item_not_tested:
  "0 < speed movingStone \<and> 0 < unused movingStone
   \<and> distanceBetween movingStone coveredStone = 0
   \<and> distanceBetween movingStone farStone = 20
   \<and> tl (orderByDistance [coveredStone, movingStone, farStone] [0..<3] 1) = [1, 2]
   \<and> collisionStep [coveredStone, movingStone, farStone] =
        testOrdered [coveredStone, movingStone, farStone] 1 [1, 2]
   \<and> collisionStep [coveredStone, movingStone, farStone] =
        Some (False, [coveredStone, movingStone', farStone'])
   \<and> testOrdered [coveredStone, movingStone, farStone] 1 [0, 2] =
        Some (False, [coveredStone', movingStone', farStone'])
   \<and> coveredStone \<noteq> coveredStone'
   \<and> collisionStep [movingStone, coveredStone, farStone] =
        Some (False, [movingStone', coveredStone', farStone'])"
proof -
  have o: "tl (orderByDistance [coveredStone, movingStone, farStone] [0..<3] 1) = [1, 2]"
    using covered_order by (simp add: upt_3 numeral_2_eq_2)
  have t: "testOrdered [coveredStone, movingStone, farStone] 1 [1, 2] =
      Some (False, [coveredStone, movingStone', farStone'])"
    using covered_tests by (simp add: numeral_2_eq_2)
  have t': "testOrdered [coveredStone, movingStone, farStone] 1 [0, 2] =
      Some (False, [coveredStone', movingStone', farStone'])"
    using covered_tests_others by (simp add: numeral_2_eq_2)
  from o t t' covered_pass reversed_pass covered_filled show ?thesis
    by (simp add: covered_speeds covered_distances)
qed

text \<open>The pass is not the tests of the other stones in ascending order.\<close>

theorem C9_witness:
  "collisionStep [coveredStone, movingStone, farStone] \<noteq>
     testOrdered [coveredStone, movingStone, farStone] 1 [0, 2]"
proof -
  from C9_covered_item_not_tested have
    a: "collisionStep [coveredStone, movingStone, farStone] =
          Some (False, [coveredStone, movingStone', farStone'])" and
    b: "testOrdered [coveredStone, movingStone, farStone] 1 [0, 2] =
          Some (False, [coveredStone', movingStone', farStone'])" and
    c: "coveredStone \<noteq> coveredStone'"
    by blast+
  show ?thesis unfolding a b using c by simp
qed

end
